theory Spec2Isabelle
  imports Main
begin

section \<open>Transaction parser (utils/transaction-parser.js)\<close>

text \<open>
  Errors thrown by the JavaScript code and by the libraries it calls are values of
  one datatype; a function that can throw returns \<open>js_error + 'a\<close>, with \<open>Inl\<close>
  the thrown error.
\<close>

datatype js_error =
    TypeError
  | NonBase58Character
  | BadSignatureSize
  | BadPublicKeySize
  | RpcFailure

text \<open>
  The object returned by \<open>getTransaction\<close>: \<open>meta\<close> carries the balance arrays,
  \<open>transaction.message\<close> the account keys (already as base58 strings) and the
  compiled instructions. A field that may be missing is an \<open>option\<close>. A balance
  is a JavaScript number holding a whole count of lamports.
\<close>

record tx_meta =
  preBalances :: "int list"
  postBalances :: "int list"

record instruction =
  programIdIndex :: nat
  data :: string

record tx_message =
  accountKeys :: "string list"
  instructions :: "instruction list"

record rpc_transaction =
  meta :: "tx_meta option"
  transaction :: "tx_message option"
  slot :: nat
  blockTime :: "int option"

text \<open>
  The value \<open>parseTipTransaction\<close> returns. \<open>amountLamports\<close> is a JavaScript
  number: \<open>None\<close> stands for \<open>NaN\<close>, which arises when a balance array has no entry
  at the target index. The derived display value \<open>amountSol\<close> (a float) is left out.
\<close>

record tip_info =
  from_address :: string
  amountLamports :: "int option"
  tip_slot :: nat
  tip_blockTime :: "int option"

text \<open>\<open>xs[i]\<close> in JavaScript: \<open>undefined\<close> (here \<open>None\<close>) out of range.\<close>

definition js_nth :: "'a list \<Rightarrow> nat \<Rightarrow> 'a option" where
  "js_nth xs i = (if i < length xs then Some (xs ! i) else None)"

text \<open>\<open>Array.prototype.indexOf\<close>: the first index holding the value, \<open>None\<close> for -1.\<close>

fun indexOf :: "'a list \<Rightarrow> 'a \<Rightarrow> nat option" where
  "indexOf [] v = None"
| "indexOf (x # xs) v =
     (if x = v then Some 0 else map_option Suc (indexOf xs v))"

text \<open>
  Balances are JavaScript numbers, that is IEEE-754 doubles; a lamport balance is a
  non-negative whole number, held here as an \<open>int\<close>. Subtracting two doubles gives
  the exact difference rounded to 53 significant bits, ties to the even
  significand: \<open>round_double\<close>. \<open>double_exponent n\<close> is the number of low bits a
  natural number \<open>n\<close> loses. Lamport balances stay below \<open>2^64\<close>, far from the
  overflow to infinity, which is not modelled.
\<close>

function double_exponent :: "nat \<Rightarrow> nat" where
  "double_exponent n =
     (if n < 9007199254740992 then 0 else Suc (double_exponent (n div 2)))"
  by pat_completeness auto
termination
  by (relation "measure (\<lambda>n. n)") auto

declare double_exponent.simps [simp del]

definition round_nat :: "nat \<Rightarrow> nat" where
  "round_nat n =
     (let e = double_exponent n;
          q = n div 2 ^ e;
          r = n mod 2 ^ e
      in if 2 ^ e < 2 * r \<or> (2 * r = 2 ^ e \<and> odd q) then (q + 1) * 2 ^ e else q * 2 ^ e)"

definition round_double :: "int \<Rightarrow> int" where
  "round_double x =
     (if x < 0 then - int (round_nat (nat (- x))) else int (round_nat (nat x)))"

text \<open>
  \<open>a - b\<close> on possibly undefined operands: \<open>NaN\<close> when either is undefined, the
  rounded difference otherwise.
\<close>

definition js_minus :: "int option \<Rightarrow> int option \<Rightarrow> int option" where
  "js_minus a b =
     (case (a, b) of (Some x, Some y) \<Rightarrow> Some (round_double (x - y)) | _ \<Rightarrow> None)"

text \<open>\<open>a > b\<close> on possibly undefined operands: false when either is undefined.\<close>

definition js_gt :: "int option \<Rightarrow> int option \<Rightarrow> bool" where
  "js_gt a b = (case (a, b) of (Some x, Some y) \<Rightarrow> x > y | _ \<Rightarrow> False)"

text \<open>\<open>balanceChange <= 0\<close>: false for \<open>NaN\<close>.\<close>

definition js_le_zero :: "int option \<Rightarrow> bool" where
  "js_le_zero a = (case a of Some x \<Rightarrow> x \<le> 0 | None \<Rightarrow> False)"

text \<open>The loop condition \<open>meta.preBalances[i] > meta.postBalances[i]\<close>.\<close>

definition balance_decreased :: "tx_meta \<Rightarrow> nat \<Rightarrow> bool" where
  "balance_decreased m i = js_gt (js_nth (preBalances m) i) (js_nth (postBalances m) i)"

text \<open>
  The sender loop of \<open>parseTipTransaction\<close>, from index \<open>i\<close> on: the first index
  other than \<open>targetIndex\<close> whose pre-balance exceeds its post-balance gives the
  sender, and the loop breaks there; \<open>fromAddress\<close> keeps its initial value
  \<open>'unknown'\<close> when the loop runs to the end. \<open>ks\<close> is the part of the
  account keys not yet visited.
\<close>

fun find_sender :: "tx_meta \<Rightarrow> nat \<Rightarrow> nat \<Rightarrow> string list \<Rightarrow> string" where
  "find_sender m targetIndex i [] = ''unknown''"
| "find_sender m targetIndex i (k # ks) =
     (if balance_decreased m i \<and> i \<noteq> targetIndex
      then k
      else find_sender m targetIndex (Suc i) ks)"

definition parseTipTransaction ::
  "rpc_transaction option \<Rightarrow> string \<Rightarrow> js_error + tip_info option" where
  "parseTipTransaction txo targetPubkey =
     (case txo of
        None \<Rightarrow> Inr None
      | Some t \<Rightarrow>
         (case meta t of
            None \<Rightarrow> Inr None
          | Some m \<Rightarrow>
             (case transaction t of
                None \<Rightarrow> Inl TypeError
              | Some msg \<Rightarrow>
                 (case indexOf (accountKeys msg) targetPubkey of
                    None \<Rightarrow> Inr None
                  | Some targetIndex \<Rightarrow>
                     (let preBalance = js_nth (preBalances m) targetIndex;
                          postBalance = js_nth (postBalances m) targetIndex;
                          balanceChange = js_minus postBalance preBalance
                      in if js_le_zero balanceChange then Inr None
                         else Inr (Some \<lparr>from_address =
                                            find_sender m targetIndex 0 (accountKeys msg),
                                          amountLamports = balanceChange,
                                          tip_slot = slot t,
                                          tip_blockTime = blockTime t\<rparr>))))))"

text \<open>The program id \<open>extractMemo\<close> looks for.\<close>

definition MEMO_PROGRAM_ID :: string where
  "MEMO_PROGRAM_ID = ''MemoSq4gqABAXKb96qnH8TysNcWxMyWCqXgDLGmfcHr''"

text \<open>
  Two transactions used to exercise the parser: an ordinary transfer of 500000000
  lamports with a memo instruction whose base58 payload \<open>8sQ\<close> encodes \<open>gg\<close>, and a
  credit to the target during which no other account of the list loses balance.
\<close>

definition example_tip_tx :: rpc_transaction where
  "example_tip_tx =
     \<lparr>meta = Some \<lparr>preBalances = [1000000000, 0, 1],
                   postBalances = [499995000, 500000000, 1]\<rparr>,
      transaction = Some \<lparr>accountKeys = [''Sender'', ''Target'', MEMO_PROGRAM_ID],
                          instructions = [\<lparr>programIdIndex = 2, data = ''8sQ''\<rparr>]\<rparr>,
      slot = 42,
      blockTime = Some 1700000000\<rparr>"

definition example_relayed_tx :: rpc_transaction where
  "example_relayed_tx =
     \<lparr>meta = Some \<lparr>preBalances = [5, 0], postBalances = [5, 7]\<rparr>,
      transaction = Some \<lparr>accountKeys = [''Relayer'', ''Target''], instructions = []\<rparr>,
      slot = 43,
      blockTime = None\<rparr>"

text \<open>
  A transfer between two large accounts: every balance is a double, and the target
  goes from 1 to 9007199254740994 lamports.
\<close>

definition large_balance_tx :: rpc_transaction where
  "large_balance_tx =
     \<lparr>meta = Some \<lparr>preBalances = [9007199254745994, 1],
                   postBalances = [1, 9007199254740994]\<rparr>,
      transaction = Some \<lparr>accountKeys = [''Sender'', ''Target''], instructions = []\<rparr>,
      slot = 44,
      blockTime = Some 1700000003\<rparr>"


section \<open>WebSocket broadcaster (core/WebSocketBroadcaster.js)\<close>

text \<open>
  The tip object the indexer emits and the broadcaster publishes. \<open>memo\<close> is
  \<open>None\<close> for \<open>undefined\<close>; \<open>td_amountLamports\<close> is \<open>None\<close> for \<open>NaN\<close>.
\<close>

record tip_data =
  streamerId :: string
  streamerPubkey :: string
  td_from :: string
  td_amountLamports :: "int option"
  txHash :: string
  td_slot :: nat
  td_blockTime :: "int option"
  memo :: "string option"

text \<open>
  Outbound messages, before \<open>JSON.stringify\<close>. The tip payload is
  \<open>{streamerId, ...tipData}\<close>: the spread comes last, so the fields of \<open>tipData\<close>
  (its own \<open>streamerId\<close> included) are the payload.
\<close>

datatype ws_message = Subscribed string | Pong | Tip tip_data

text \<open>
  An inbound message after \<open>JSON.parse\<close>; a missing field is \<open>None\<close>. Fields
  that are present are taken to be strings.
\<close>

record client_msg =
  action :: "string option"
  msg_type :: "string option"
  streamer :: "string option"

text \<open>Truthiness of a possibly missing string, and the operator \<open>||\<close>.\<close>

definition js_truthy :: "string option \<Rightarrow> bool" where
  "js_truthy v = (case v of None \<Rightarrow> False | Some s \<Rightarrow> s \<noteq> [])"

definition js_or :: "string option \<Rightarrow> string option \<Rightarrow> string option" where
  "js_or a b = (if js_truthy a then a else b)"

text \<open>
  A socket is known by an identifier; \<open>readyState\<close> 1 is OPEN. \<open>clients\<close> is
  \<open>wss.clients\<close> in iteration order, \<open>subscriptions\<close> the map from socket to its
  set of streamer ids, \<open>alertCounts\<close> the map from streamer id to the recorded
  emission timestamps (milliseconds).
\<close>

record ws_socket =
  ws_id :: nat
  readyState :: nat

record broadcaster =
  clients :: "ws_socket list"
  subscriptions :: "nat \<rightharpoonup> string set"
  alertCounts :: "string \<rightharpoonup> int list"

record broadcaster_options =
  pingInterval :: int
  maxAlertsPerWindow :: int
  alertWindowMs :: int

text \<open>What a call does to the outside: \<open>ws.send\<close> on a socket, or a console line.\<close>

datatype console_line =
    ClientSubscribed string
  | UnknownMessageType "string option"
  | RateLimitExceeded string
  | BroadcastedTip string nat

datatype effect = Send nat ws_message | Console console_line

definition handleMessage ::
  "broadcaster \<Rightarrow> nat \<Rightarrow> client_msg \<Rightarrow> broadcaster \<times> effect list" where
  "handleMessage b ws msg =
     (let sel = js_or (action msg) (msg_type msg) in
      if sel = Some ''subscribe'' then
        (if js_truthy (streamer msg) then
           (let s = the (streamer msg);
                subs0 = (case subscriptions b ws of None \<Rightarrow> {} | Some subs \<Rightarrow> subs)
            in (b\<lparr>subscriptions := (subscriptions b)(ws \<mapsto> insert s subs0)\<rparr>,
                [Send ws (Subscribed s), Console (ClientSubscribed s)]))
         else (b, []))
      else if sel = Some ''ping'' then (b, [Send ws Pong])
      else (b, [Console (UnknownMessageType (msg_type msg))]))"

text \<open>
  \<open>shouldBroadcast\<close>: an absent entry is first set to the empty list; entries with
  \<open>now - entry < windowMs\<close> are kept; when as many as the budget remain the call
  answers false and stores nothing more; otherwise \<open>now\<close> is appended and the
  filtered list stored.
\<close>

definition shouldBroadcast ::
  "broadcaster_options \<Rightarrow> int \<Rightarrow> (string \<rightharpoonup> int list) \<Rightarrow> string
     \<Rightarrow> bool \<times> (string \<rightharpoonup> int list)" where
  "shouldBroadcast opts now ac sid =
     (let ac1 = (if ac sid = None then ac(sid \<mapsto> []) else ac);
          counts = (case ac1 sid of None \<Rightarrow> [] | Some cs \<Rightarrow> cs);
          filtered = filter (\<lambda>entry. now - entry < alertWindowMs opts) counts
      in if int (length filtered) \<ge> maxAlertsPerWindow opts then (False, ac1)
         else (True, ac1(sid \<mapsto> filtered @ [now])))"

text \<open>
  The \<open>forEach\<close> over \<open>wss.clients\<close> in \<open>broadcastTip\<close>: a socket is sent the
  message when it has a subscription set, the set holds the streamer id, and the
  socket is OPEN.
\<close>

fun fan_out ::
  "(nat \<rightharpoonup> string set) \<Rightarrow> string \<Rightarrow> ws_message \<Rightarrow> ws_socket list \<Rightarrow> effect list" where
  "fan_out subm sid message [] = []"
| "fan_out subm sid message (ws # rest) =
     (if (case subm (ws_id ws) of None \<Rightarrow> False
          | Some subs \<Rightarrow> sid \<in> subs \<and> readyState ws = 1)
      then Send (ws_id ws) message # fan_out subm sid message rest
      else fan_out subm sid message rest)"

definition broadcastTip ::
  "broadcaster_options \<Rightarrow> int \<Rightarrow> broadcaster \<Rightarrow> string \<Rightarrow> tip_data
     \<Rightarrow> broadcaster \<times> effect list" where
  "broadcastTip opts now b sid tipData =
     (case shouldBroadcast opts now (alertCounts b) sid of
        (False, ac) \<Rightarrow> (b\<lparr>alertCounts := ac\<rparr>, [Console (RateLimitExceeded sid)])
      | (True, ac) \<Rightarrow>
          (let sends = fan_out (subscriptions b) sid (Tip tipData) (clients b)
           in (b\<lparr>alertCounts := ac\<rparr>,
               sends @ [Console (BroadcastedTip sid (length sends))])))"

text \<open>
  A run of publish calls for one streamer id, each at its own clock reading; the
  effects of each call are kept apart.
\<close>

fun broadcast_seq ::
  "broadcaster_options \<Rightarrow> broadcaster \<Rightarrow> string \<Rightarrow> (int \<times> tip_data) list
     \<Rightarrow> broadcaster \<times> effect list list" where
  "broadcast_seq opts b sid [] = (b, [])"
| "broadcast_seq opts b sid ((now, tipData) # rest) =
     (case broadcastTip opts now b sid tipData of
        (b1, effs) \<Rightarrow>
          (case broadcast_seq opts b1 sid rest of
             (b2, later) \<Rightarrow> (b2, effs # later)))"

text \<open>The recorded emission timestamps of a streamer id, and observers of effects.\<close>

definition recorded :: "broadcaster \<Rightarrow> string \<Rightarrow> int list" where
  "recorded b sid = (case alertCounts b sid of None \<Rightarrow> [] | Some cs \<Rightarrow> cs)"

fun sends_to :: "effect list \<Rightarrow> (nat \<times> ws_message) list" where
  "sends_to [] = []"
| "sends_to (Send w m # es) = (w, m) # sends_to es"
| "sends_to (Console l # es) = sends_to es"

definition delivered :: "string \<Rightarrow> effect list \<Rightarrow> bool" where
  "delivered sid effs = (effs \<noteq> [Console (RateLimitExceeded sid)])"

text \<open>
  A broadcaster with three sockets, used to exercise the fan-out and the rate limit:
  socket 1 (open) follows \<open>alice\<close>, socket 2 (open) follows \<open>bob\<close>, socket 3
  follows \<open>alice\<close> but is closed; budget 2 per 10000 ms.
\<close>

definition example_options :: broadcaster_options where
  "example_options = \<lparr>pingInterval = 30000, maxAlertsPerWindow = 2, alertWindowMs = 10000\<rparr>"

definition example_broadcaster :: broadcaster where
  "example_broadcaster =
     \<lparr>clients = [\<lparr>ws_id = 1, readyState = 1\<rparr>, \<lparr>ws_id = 2, readyState = 1\<rparr>,
                 \<lparr>ws_id = 3, readyState = 3\<rparr>],
      subscriptions = [1 \<mapsto> {''alice''}, 2 \<mapsto> {''bob''}, 3 \<mapsto> {''alice''}],
      alertCounts = Map.empty\<rparr>"

definition example_tip :: tip_data where
  "example_tip =
     \<lparr>streamerId = ''alice'', streamerPubkey = ''Target'', td_from = ''Sender'',
      td_amountLamports = Some 500000000, txHash = ''sig1'', td_slot = 42,
      td_blockTime = Some 1700000000, memo = Some ''gg''\<rparr>"

text \<open>The messages one socket is sent over a run of publish calls, in order.\<close>

definition received :: "nat \<Rightarrow> effect list list \<Rightarrow> ws_message list" where
  "received w effss = map snd (filter (\<lambda>p. fst p = w) (sends_to (concat effss)))"

text \<open>
  The pruning as the specification words it: an entry is pruned when it is older
  than the window, that is when \<open>now - entry\<close> exceeds the window; the entries that
  remain are those of age up to and including one window.
\<close>

definition spec_remaining :: "int \<Rightarrow> int \<Rightarrow> int list \<Rightarrow> int list" where
  "spec_remaining windowMs now counts = filter (\<lambda>entry. now - entry \<le> windowMs) counts"

text \<open>
  A budget of one alert per 10000 ms, and the example broadcaster with one emission
  for \<open>alice\<close> recorded at time 0.
\<close>

definition boundary_options :: broadcaster_options where
  "boundary_options = \<lparr>pingInterval = 30000, maxAlertsPerWindow = 1, alertWindowMs = 10000\<rparr>"

definition boundary_broadcaster :: broadcaster where
  "boundary_broadcaster = example_broadcaster\<lparr>alertCounts := [''alice'' \<mapsto> [0]]\<rparr>"

section \<open>Signature verification (utils/crypto.js)\<close>

text \<open>
  \<open>bs58.decode\<close> and \<open>nacl.sign.detached.verify\<close> belong to libraries the
  repository imports. Their behaviour on malformed input is what \<open>verifySignature\<close>
  relies on, so it is written out: \<open>bs58.decode\<close> throws on a character outside the
  base58 alphabet and otherwise yields one zero byte per leading \<open>1\<close> followed by
  the big-endian bytes of the number the remaining digits denote;
  \<open>nacl.sign.detached.verify\<close> throws unless the signature has 64 bytes and the
  public key 32, and otherwise answers with the ed25519 check, which is a parameter
  (\<open>ed25519\<close>) of the model. Bytes are natural numbers below 256.
\<close>

definition BASE58_ALPHABET :: string where
  "BASE58_ALPHABET = ''123456789ABCDEFGHJKLMNPQRSTUVWXYZabcdefghijkmnopqrstuvwxyz''"

function bytes_be :: "nat \<Rightarrow> nat list" where
  "bytes_be n = (if n = 0 then [] else bytes_be (n div 256) @ [n mod 256])"
  by pat_completeness auto
termination
  by (relation "measure (\<lambda>n. n)") auto

definition base58_value :: "string \<Rightarrow> nat" where
  "base58_value s =
     foldl (\<lambda>acc c. acc * 58 + (case indexOf BASE58_ALPHABET c of None \<Rightarrow> 0 | Some d \<Rightarrow> d)) 0 s"

definition bs58_decode :: "string \<Rightarrow> js_error + nat list" where
  "bs58_decode s =
     (if \<exists>c\<in>set s. c \<notin> set BASE58_ALPHABET then Inl NonBase58Character
      else Inr (replicate (length (takeWhile (\<lambda>c. c = CHR ''1'') s)) 0
                @ bytes_be (base58_value (dropWhile (\<lambda>c. c = CHR ''1'') s))))"

definition nacl_sign_detached_verify ::
  "(nat list \<Rightarrow> nat list \<Rightarrow> nat list \<Rightarrow> bool) \<Rightarrow> nat list \<Rightarrow> nat list \<Rightarrow> nat list
     \<Rightarrow> js_error + bool" where
  "nacl_sign_detached_verify ed25519 msg sig publicKey =
     (if length sig \<noteq> 64 then Inl BadSignatureSize
      else if length publicKey \<noteq> 32 then Inl BadPublicKeySize
      else Inr (ed25519 msg sig publicKey))"

text \<open>\<open>new TextEncoder().encode\<close>: a string is already its UTF-8 bytes here.\<close>

definition TextEncoder_encode :: "string \<Rightarrow> nat list" where
  "TextEncoder_encode s = map of_char s"

text \<open>
  The body of the \<open>try\<close> block, and the function with its \<open>catch\<close>. The result is
  the boolean returned together with the errors written with \<open>console.error\<close>:
  the caught error, when there is one.
\<close>

definition verifySignature_try ::
  "(nat list \<Rightarrow> nat list \<Rightarrow> nat list \<Rightarrow> bool) \<Rightarrow> string \<Rightarrow> string \<Rightarrow> string
     \<Rightarrow> js_error + bool" where
  "verifySignature_try ed25519 message signatureBase58 pubkeyBase58 =
     (let messageBytes = TextEncoder_encode message in
      case bs58_decode signatureBase58 of
        Inl e \<Rightarrow> Inl e
      | Inr signatureBytes \<Rightarrow>
          (case bs58_decode pubkeyBase58 of
             Inl e \<Rightarrow> Inl e
           | Inr pubkeyBytes \<Rightarrow>
               nacl_sign_detached_verify ed25519 messageBytes signatureBytes pubkeyBytes))"

definition verifySignature ::
  "(nat list \<Rightarrow> nat list \<Rightarrow> nat list \<Rightarrow> bool) \<Rightarrow> string \<Rightarrow> string \<Rightarrow> string
     \<Rightarrow> bool \<times> js_error list" where
  "verifySignature ed25519 message signatureBase58 pubkeyBase58 =
     (case verifySignature_try ed25519 message signatureBase58 pubkeyBase58 of
        Inl e \<Rightarrow> (False, [e])
      | Inr ok \<Rightarrow> (ok, []))"

section \<open>Memo extraction (utils/transaction-parser.js)\<close>

text \<open>
  \<open>Buffer.from(bytes).toString('utf-8')\<close> never throws: it decodes the bytes as
  UTF-8 and puts U+FFFD in the place of every ill-formed sequence, one for each
  maximal prefix of a well-formed sequence and one for each byte that can start
  none. A text is held here as the bytes of its UTF-8 form, so a well-formed
  sequence is copied and U+FFFD is the three bytes of \<open>REPLACEMENT\<close>.
  \<open>utf8_scan pending needed lo hi\<close> reads on with \<open>needed\<close> continuation bytes
  outstanding, the next of which must lie between \<open>lo\<close> and \<open>hi\<close>, after the bytes
  \<open>pending\<close> of the sequence begun.
\<close>

definition REPLACEMENT :: "nat list" where
  "REPLACEMENT = [239, 191, 189]"

function utf8_scan :: "nat list \<Rightarrow> nat \<Rightarrow> nat \<Rightarrow> nat \<Rightarrow> nat list \<Rightarrow> nat list" where
  "utf8_scan pending needed lo hi [] = (if needed = 0 then [] else REPLACEMENT)"
| "utf8_scan pending needed lo hi (b # bs) =
     (if needed = 0 then
        (if b \<le> 127 then b # utf8_scan [] 0 128 191 bs
         else if 194 \<le> b \<and> b \<le> 223 then utf8_scan [b] 1 128 191 bs
         else if 224 \<le> b \<and> b \<le> 239 then
           utf8_scan [b] 2 (if b = 224 then 160 else 128) (if b = 237 then 159 else 191) bs
         else if 240 \<le> b \<and> b \<le> 244 then
           utf8_scan [b] 3 (if b = 240 then 144 else 128) (if b = 244 then 143 else 191) bs
         else REPLACEMENT @ utf8_scan [] 0 128 191 bs)
      else if b < lo \<or> hi < b then REPLACEMENT @ utf8_scan [] 0 128 191 (b # bs)
      else if needed = 1 then pending @ [b] @ utf8_scan [] 0 128 191 bs
      else utf8_scan (pending @ [b]) (needed - 1) 128 191 bs)"
  by pat_completeness auto
termination
  by (relation "measure (\<lambda>(pending, needed, lo, hi, bs).
                  2 * length bs + (if needed = 0 then 0 else 1))") auto

definition utf8_toString :: "nat list \<Rightarrow> string" where
  "utf8_toString bs = map char_of (utf8_scan [] 0 128 191 bs)"

text \<open>
  The loop of \<open>extractMemo\<close>, with the errors it writes with \<open>console.error\<close>.
  Reading the program id of an instruction whose \<open>programIdIndex\<close> is out of range
  calls \<open>toString\<close> on \<open>undefined\<close> and throws, outside the inner \<open>try\<close>. A memo
  instruction with non-empty data returns its decoded text; when decoding throws,
  the error is logged and the loop goes on to the next instruction.
\<close>

fun memo_loop ::
  "string list \<Rightarrow> instruction list \<Rightarrow> (js_error + string option) \<times> js_error list" where
  "memo_loop keys [] = (Inr None, [])"
| "memo_loop keys (ix # rest) =
     (case js_nth keys (programIdIndex ix) of
        None \<Rightarrow> (Inl TypeError, [])
      | Some programId \<Rightarrow>
          (if programId = MEMO_PROGRAM_ID \<and> data ix \<noteq> [] then
             (case bs58_decode (data ix) of
                Inr bytes \<Rightarrow> (Inr (Some (utf8_toString bytes)), [])
              | Inl e \<Rightarrow>
                  (case memo_loop keys rest of (res, logged) \<Rightarrow> (res, e # logged)))
           else memo_loop keys rest))"

definition extractMemo ::
  "rpc_transaction option \<Rightarrow> (js_error + string option) \<times> js_error list" where
  "extractMemo txo =
     (case txo of
        None \<Rightarrow> (Inr None, [])
      | Some t \<Rightarrow>
          (case transaction t of
             None \<Rightarrow> (Inr None, [])
           | Some msg \<Rightarrow> memo_loop (accountKeys msg) (instructions msg)))"

section \<open>Tip indexer (core/TipIndexer.js) and its cursor store (adapters/MemoryAdapter.js)\<close>

text \<open>
  The ledger client is outside the repository; each of its two calls either throws
  or answers. \<open>getSignaturesForAddress address limit until\<close> answers with a page
  of signatures, newest first; \<open>getTransaction\<close> answers with a transaction or
  with null.
\<close>

record rpc =
  getSignaturesForAddress :: "string \<Rightarrow> nat \<Rightarrow> string option \<Rightarrow> js_error + string list"
  getTransaction :: "string \<Rightarrow> js_error + rpc_transaction option"

text \<open>
  The \<open>lastSeen\<close> map of the memory adapter. \<open>getLastSeen\<close> is
  \<open>this.lastSeen.get(pubkey) || null\<close>, so a stored empty string reads as null.
\<close>

type_synonym cursor_store = "string \<rightharpoonup> string"

definition getLastSeen :: "cursor_store \<Rightarrow> string \<Rightarrow> string option" where
  "getLastSeen st pubkey = js_or (st pubkey) None"

definition updateLastSeen :: "cursor_store \<Rightarrow> string \<Rightarrow> string \<Rightarrow> cursor_store" where
  "updateLastSeen st pubkey signature = st(pubkey \<mapsto> signature)"

text \<open>
  What the indexer does, in order: a call of \<open>this.emit('tip', tipData)\<close>, a call of
  \<open>storage.updateLastSeen\<close>, or a console line (the error caught in
  \<open>processTransaction\<close>, the missing-data warning, the error caught in
  \<open>checkStreamerTips\<close>, a decoding error logged by \<open>extractMemo\<close>, the line
  announcing a detected tip, which is kept with the streamer id it names; the
  amount in SOL it also prints is a float and is left out).
\<close>

datatype indexer_step =
    Emit tip_data
  | UpdateLastSeen string string
  | TxErrorLogged string
  | NoTransactionData string
  | CheckErrorLogged string
  | MemoErrorLogged js_error
  | TipDetectedLogged string

text \<open>
  \<open>processTransaction\<close>: everything is inside one \<open>try\<close>, so an error thrown by
  the fetch, by the parser or by \<open>extractMemo\<close> ends the call with a console
  line. What \<open>extractMemo\<close> logged comes first, then the announcement and the
  emission or, when it threw, the error line. The emitted \<open>memo\<close> is
  \<open>memo || undefined\<close>.
\<close>

definition processTransaction :: "rpc \<Rightarrow> string \<Rightarrow> string \<Rightarrow> string \<Rightarrow> indexer_step list" where
  "processTransaction r sid pubkey signature =
     (case getTransaction r signature of
        Inl e \<Rightarrow> [TxErrorLogged signature]
      | Inr None \<Rightarrow> [NoTransactionData signature]
      | Inr (Some t) \<Rightarrow>
          (if meta t = None then [NoTransactionData signature]
           else
             (case parseTipTransaction (Some t) pubkey of
                Inl e \<Rightarrow> [TxErrorLogged signature]
              | Inr None \<Rightarrow> []
              | Inr (Some tipInfo) \<Rightarrow>
                  map MemoErrorLogged (snd (extractMemo (Some t)))
                  @ (case fst (extractMemo (Some t)) of
                       Inl e \<Rightarrow> [TxErrorLogged signature]
                     | Inr m \<Rightarrow>
                         [TipDetectedLogged sid,
                          Emit \<lparr>streamerId = sid,
                                streamerPubkey = pubkey,
                                td_from = from_address tipInfo,
                                td_amountLamports = amountLamports tipInfo,
                                txHash = signature,
                                td_slot = tip_slot tipInfo,
                                td_blockTime = tip_blockTime tipInfo,
                                memo = js_or m None\<rparr>]))))"

text \<open>
  \<open>new PublicKey(pubkey)\<close> throws unless the string decodes to 32 bytes.
\<close>

definition valid_public_key :: "string \<Rightarrow> bool" where
  "valid_public_key pubkey =
     (case bs58_decode pubkey of Inl e \<Rightarrow> False | Inr bs \<Rightarrow> length bs = 32)"

text \<open>
  The loop of \<open>checkStreamerTips\<close> over the reversed page. \<open>lastSeen\<close> is the
  value read before the loop; a signature equal to it is skipped, every other one
  is processed and then stored as the cursor.
\<close>

fun process_signatures ::
  "rpc \<Rightarrow> string \<Rightarrow> string \<Rightarrow> string option \<Rightarrow> cursor_store \<Rightarrow> string list
     \<Rightarrow> cursor_store \<times> indexer_step list" where
  "process_signatures r sid pubkey lastSeen st [] = (st, [])"
| "process_signatures r sid pubkey lastSeen st (signature # rest) =
     (if Some signature = lastSeen then process_signatures r sid pubkey lastSeen st rest
      else
        (let steps = processTransaction r sid pubkey signature;
             st1 = updateLastSeen st pubkey signature
         in case process_signatures r sid pubkey lastSeen st1 rest of
              (st2, later) \<Rightarrow> (st2, steps @ [UpdateLastSeen pubkey signature] @ later)))"

definition checkStreamerTips ::
  "rpc \<Rightarrow> nat \<Rightarrow> cursor_store \<Rightarrow> string \<Rightarrow> string
     \<Rightarrow> cursor_store \<times> indexer_step list" where
  "checkStreamerTips r signatureLimit st sid pubkey =
     (let lastSeen = getLastSeen st pubkey in
      if \<not> valid_public_key pubkey then (st, [CheckErrorLogged sid])
      else
        (case getSignaturesForAddress r pubkey signatureLimit lastSeen of
           Inl e \<Rightarrow> (st, [CheckErrorLogged sid])
         | Inr signatures \<Rightarrow>
             process_signatures r sid pubkey lastSeen st (rev signatures)))"

text \<open>
  Successive poll cycles for one streamer; the ledger client of each cycle is given
  in order. No other streamer shares the address.
\<close>

fun poll_cycles ::
  "rpc list \<Rightarrow> nat \<Rightarrow> cursor_store \<Rightarrow> string \<Rightarrow> string
     \<Rightarrow> cursor_store \<times> indexer_step list" where
  "poll_cycles [] signatureLimit st sid pubkey = (st, [])"
| "poll_cycles (r # rs) signatureLimit st sid pubkey =
     (case checkStreamerTips r signatureLimit st sid pubkey of
        (st1, steps) \<Rightarrow>
          (case poll_cycles rs signatureLimit st1 sid pubkey of
             (st2, later) \<Rightarrow> (st2, steps @ later)))"

text \<open>The transaction signatures of the tips emitted in a run, in order.\<close>

fun emitted_hashes :: "indexer_step list \<Rightarrow> string list" where
  "emitted_hashes [] = []"
| "emitted_hashes (Emit t # steps) = txHash t # emitted_hashes steps"
| "emitted_hashes (s # steps) = emitted_hashes steps"

text \<open>
  The signatures of a page that the loop processes, oldest first, and the cursor
  the loop leaves behind.
\<close>

definition processed :: "string option \<Rightarrow> string list \<Rightarrow> string list" where
  "processed lastSeen page = filter (\<lambda>s. Some s \<noteq> lastSeen) (rev page)"

definition cursor_after :: "string option \<Rightarrow> string list \<Rightarrow> string option" where
  "cursor_after lastSeen page =
     (if processed lastSeen page = [] then lastSeen
      else js_or (Some (last (processed lastSeen page))) None)"

text \<open>
  Pages that never overlap what was processed before: in each cycle whose fetch
  answers, the signatures of the page other than the cursor the fetch was bounded
  by are pairwise different and were not processed in an earlier cycle.
\<close>

fun fresh_pages :: "rpc list \<Rightarrow> nat \<Rightarrow> string \<Rightarrow> string option \<Rightarrow> string list \<Rightarrow> bool" where
  "fresh_pages [] signatureLimit pubkey lastSeen seen = True"
| "fresh_pages (r # rs) signatureLimit pubkey lastSeen seen =
     (case getSignaturesForAddress r pubkey signatureLimit lastSeen of
        Inl e \<Rightarrow> fresh_pages rs signatureLimit pubkey lastSeen seen
      | Inr page \<Rightarrow>
          distinct (processed lastSeen page)
          \<and> set (processed lastSeen page) \<inter> set seen = {}
          \<and> fresh_pages rs signatureLimit pubkey (cursor_after lastSeen page)
                (seen @ processed lastSeen page))"

text \<open>
  Ledger clients used to exercise the indexer. \<open>RECIPIENT\<close> decodes to 32 bytes.
  \<open>credit_tx\<close> credits it with 1000000 lamports. \<open>flaky_rpc\<close> answers every fetch
  of signatures with the page \<open>sigB, sigA\<close> and throws when \<open>sigA\<close> is fetched;
  \<open>quiet_rpc\<close> answers every fetch of signatures with the empty page.
  \<open>first_rpc\<close> and \<open>overlapping_rpc\<close> answer with the pages \<open>s2, s1\<close> and
  \<open>s3, s2, s1\<close> whatever the bound.
\<close>

definition RECIPIENT :: string where
  "RECIPIENT = ''11111111111111111111111111111111''"

definition credit_tx :: rpc_transaction where
  "credit_tx =
     \<lparr>meta = Some \<lparr>preBalances = [9000000, 0], postBalances = [7995000, 1000000]\<rparr>,
      transaction = Some \<lparr>accountKeys = [''Sender'', RECIPIENT], instructions = []\<rparr>,
      slot = 7,
      blockTime = Some 1700000000\<rparr>"



definition first_rpc :: rpc where
  "first_rpc =
     \<lparr>getSignaturesForAddress = (\<lambda>address limit until. Inr [''s2'', ''s1'']),
      getTransaction = (\<lambda>signature. Inr (Some credit_tx))\<rparr>"

definition overlapping_rpc :: rpc where
  "overlapping_rpc =
     \<lparr>getSignaturesForAddress = (\<lambda>address limit until. Inr [''s3'', ''s2'', ''s1'']),
      getTransaction = (\<lambda>signature. Inr (Some credit_tx))\<rparr>"

definition fresh_rpc :: rpc where
  "fresh_rpc =
     \<lparr>getSignaturesForAddress = (\<lambda>address limit until. Inr [''s3'', ''s2'']),
      getTransaction = (\<lambda>signature. Inr (Some credit_tx))\<rparr>"

text \<open>
  An instruction \<open>extractMemo\<close> tries to decode: addressed to the memo program,
  with non-empty data.
\<close>

definition is_memo_instruction :: "string list \<Rightarrow> instruction \<Rightarrow> bool" where
  "is_memo_instruction keys ix =
     (js_nth keys (programIdIndex ix) = Some MEMO_PROGRAM_ID \<and> data ix \<noteq> [])"

text \<open>
  A credit to \<open>RECIPIENT\<close> carrying two memo instructions: the data of the first
  holds the character \<open>0\<close>, which is not base58; the data of the second encodes \<open>gg\<close>.
\<close>

definition double_memo_tx :: rpc_transaction where
  "double_memo_tx =
     \<lparr>meta = Some \<lparr>preBalances = [9000000, 0, 1], postBalances = [7995000, 1000000, 1]\<rparr>,
      transaction = Some \<lparr>accountKeys = [''Sender'', RECIPIENT, MEMO_PROGRAM_ID],
                          instructions = [\<lparr>programIdIndex = 2, data = ''0''\<rparr>,
                                          \<lparr>programIdIndex = 2, data = ''8sQ''\<rparr>]\<rparr>,
      slot = 8,
      blockTime = Some 1700000001\<rparr>"

definition bad_memo_tx :: rpc_transaction where
  "bad_memo_tx =
     \<lparr>meta = Some \<lparr>preBalances = [9000000, 0, 1], postBalances = [7995000, 1000000, 1]\<rparr>,
      transaction = Some \<lparr>accountKeys = [''Sender'', RECIPIENT, MEMO_PROGRAM_ID],
                          instructions = [\<lparr>programIdIndex = 2, data = ''0''\<rparr>]\<rparr>,
      slot = 9,
      blockTime = Some 1700000002\<rparr>"

text \<open>
  A credit whose memo data \<open>LSJ\<close> decodes to the bytes 255 and 103, which are not
  UTF-8.
\<close>

definition illformed_memo_tx :: rpc_transaction where
  "illformed_memo_tx =
     \<lparr>meta = Some \<lparr>preBalances = [9000000, 0, 1], postBalances = [7995000, 1000000, 1]\<rparr>,
      transaction = Some \<lparr>accountKeys = [''Sender'', RECIPIENT, MEMO_PROGRAM_ID],
                          instructions = [\<lparr>programIdIndex = 2, data = ''LSJ''\<rparr>]\<rparr>,
      slot = 10,
      blockTime = Some 1700000004\<rparr>"

definition memo_rpc :: rpc where
  "memo_rpc =
     \<lparr>getSignaturesForAddress = (\<lambda>address limit until. Inr [''m2'', ''m1'']),
      getTransaction = (\<lambda>signature. if signature = ''m1'' then Inr (Some bad_memo_tx)
                                      else Inr (Some double_memo_tx))\<rparr>"

text \<open>A signature string that decodes to 64 bytes, and a check that accepts everything.\<close>

definition SIGNATURE64 :: string where
  "SIGNATURE64 = ''1111111111111111111111111111111111111111111111111111111111111111''"

definition accept_all :: "nat list \<Rightarrow> nat list \<Rightarrow> nat list \<Rightarrow> bool" where
  "accept_all msg sig publicKey = True"

section \<open>Event handlers of the indexer (core/TipIndexer.js)\<close>

text \<open>
  A handler is a function of the event data acting on the state of the world
  outside the indexer; it returns normally or throws, after whatever it did to that
  state. It carries an identifier so that its calls can be told apart. Handlers are
  synchronous and do not touch the indexer's handler table.
\<close>

record ('d, 's) handler =
  handler_id :: nat
  run :: "'d \<Rightarrow> 's \<Rightarrow> 's \<times> js_error option"

text \<open>\<open>on\<close>: create the list for the event name when missing, then push.\<close>

definition on ::
  "string \<Rightarrow> ('d, 's) handler \<Rightarrow> (string \<rightharpoonup> ('d, 's) handler list)
     \<Rightarrow> (string \<rightharpoonup> ('d, 's) handler list)" where
  "on event h eventHandlers =
     (let m1 = (if eventHandlers event = None then eventHandlers(event \<mapsto> [])
                else eventHandlers)
      in m1(event \<mapsto> (case m1 event of None \<Rightarrow> [] | Some hs \<Rightarrow> hs) @ [h]))"

text \<open>
  What \<open>emit\<close> does, in order: the call of a handler with the data, and the console
  line for an error caught from it.
\<close>

datatype 'd emit_step = Invoked nat 'd | HandlerErrorLogged js_error

fun forEach_handlers ::
  "('d, 's) handler list \<Rightarrow> 'd \<Rightarrow> 's \<Rightarrow> 's \<times> 'd emit_step list" where
  "forEach_handlers [] d s = (s, [])"
| "forEach_handlers (h # hs) d s =
     (case run h d s of
        (s1, thrown) \<Rightarrow>
          (case forEach_handlers hs d s1 of
             (s2, later) \<Rightarrow>
               (s2, Invoked (handler_id h) d
                      # (case thrown of None \<Rightarrow> [] | Some e \<Rightarrow> [HandlerErrorLogged e])
                      @ later)))"

definition emit ::
  "(string \<rightharpoonup> ('d, 's) handler list) \<Rightarrow> string \<Rightarrow> 'd \<Rightarrow> 's \<Rightarrow> 's \<times> 'd emit_step list" where
  "emit eventHandlers event d s =
     forEach_handlers (case eventHandlers event of None \<Rightarrow> [] | Some hs \<Rightarrow> hs) d s"

text \<open>Registering a list of handlers for one event, first to last.\<close>

definition register_all ::
  "string \<Rightarrow> ('d, 's) handler list \<Rightarrow> (string \<rightharpoonup> ('d, 's) handler list)
     \<Rightarrow> (string \<rightharpoonup> ('d, 's) handler list)" where
  "register_all event hs eventHandlers = foldl (\<lambda>m h. on event h m) eventHandlers hs"

fun invocations :: "'d emit_step list \<Rightarrow> (nat \<times> 'd) list" where
  "invocations [] = []"
| "invocations (Invoked i d # steps) = (i, d) # invocations steps"
| "invocations (HandlerErrorLogged e # steps) = invocations steps"

text \<open>
  Three handlers over a counter: the first and the third add to it, the second adds
  and then throws.
\<close>

definition counting_handler :: "nat \<Rightarrow> (tip_data, nat) handler" where
  "counting_handler i = \<lparr>handler_id = i, run = (\<lambda>d s. (s + 1, None))\<rparr>"

definition throwing_handler :: "nat \<Rightarrow> (tip_data, nat) handler" where
  "throwing_handler i = \<lparr>handler_id = i, run = (\<lambda>d s. (s + 10, Some TypeError))\<rparr>"

section \<open>Properties of the parser\<close>

lemma indexOf_None_iff: "indexOf xs v = None \<longleftrightarrow> v \<notin> set xs"
  by (induction xs) auto

lemma indexOf_Some_bound: "indexOf xs v = Some i \<Longrightarrow> i < length xs \<and> xs ! i = v"
  by (induction xs arbitrary: i) (auto split: if_splits)

lemma indexOf_Some_least: "indexOf xs v = Some i \<Longrightarrow> j < i \<Longrightarrow> xs ! j \<noteq> v"
proof (induction xs arbitrary: i j)
  case Nil
  then show ?case by simp
next
  case (Cons x xs)
  show ?case
  proof (cases "x = v")
    case True
    with Cons.prems show ?thesis by simp
  next
    case False
    with Cons.prems obtain i' where i': "indexOf xs v = Some i'" "i = Suc i'"
      by auto
    show ?thesis
    proof (cases j)
      case 0
      with False show ?thesis by simp
    next
      case (Suc j')
      with Cons.prems i' have "j' < i'" by simp
      with Cons.IH [OF i'(1)] Suc show ?thesis by simp
    qed
  qed
qed

lemma indexOf_first:
  "i < length xs \<Longrightarrow> xs ! i = v \<Longrightarrow> (\<forall>j<i. xs ! j \<noteq> v) \<Longrightarrow> indexOf xs v = Some i"
proof (induction xs arbitrary: i)
  case Nil
  then show ?case by simp
next
  case (Cons x xs)
  show ?case
  proof (cases i)
    case 0
    with Cons.prems show ?thesis by simp
  next
    case (Suc i')
    from Cons.prems Suc have "x \<noteq> v" by auto
    moreover from Cons.prems Suc have "indexOf xs v = Some i'"
      by (intro Cons.IH) auto
    ultimately show ?thesis using Suc by simp
  qed
qed

lemma find_sender_char:
  "(\<exists>n<length ks. (balance_decreased m (i + n) \<and> i + n \<noteq> ti)
       \<and> (\<forall>j<n. \<not> (balance_decreased m (i + j) \<and> i + j \<noteq> ti))
       \<and> find_sender m ti i ks = ks ! n)
   \<or> ((\<forall>n<length ks. \<not> (balance_decreased m (i + n) \<and> i + n \<noteq> ti))
       \<and> find_sender m ti i ks = ''unknown'')"
proof (induction ks arbitrary: i)
  case Nil
  show ?case by simp
next
  case (Cons k ks)
  show ?case
  proof (cases "balance_decreased m i \<and> i \<noteq> ti")
    case True
    then have "0 < length (k # ks) \<and> (balance_decreased m (i + 0) \<and> i + 0 \<noteq> ti)
       \<and> (\<forall>j<0. \<not> (balance_decreased m (i + j) \<and> i + j \<noteq> ti))
       \<and> find_sender m ti i (k # ks) = (k # ks) ! 0" by simp
    then show ?thesis by blast
  next
    case False
    then have fs: "find_sender m ti i (k # ks) = find_sender m ti (Suc i) ks"
      by auto
    from Cons.IH [of "Suc i"] show ?thesis
    proof
      assume "\<exists>n<length ks. (balance_decreased m (Suc i + n) \<and> Suc i + n \<noteq> ti)
       \<and> (\<forall>j<n. \<not> (balance_decreased m (Suc i + j) \<and> Suc i + j \<noteq> ti))
       \<and> find_sender m ti (Suc i) ks = ks ! n"
      then obtain n where n: "n < length ks" "balance_decreased m (Suc i + n)" "Suc i + n \<noteq> ti"
        "\<forall>j<n. \<not> (balance_decreased m (Suc i + j) \<and> Suc i + j \<noteq> ti)"
        "find_sender m ti (Suc i) ks = ks ! n" by blast
      have least: "\<forall>j<Suc n. \<not> (balance_decreased m (i + j) \<and> i + j \<noteq> ti)"
      proof (intro allI impI)
        fix j assume "j < Suc n"
        show "\<not> (balance_decreased m (i + j) \<and> i + j \<noteq> ti)"
        proof (cases j)
          case 0
          with False show ?thesis by simp
        next
          case (Suc j')
          with \<open>j < Suc n\<close> n(4) show ?thesis by simp
        qed
      qed
      have "Suc n < length (k # ks) \<and> (balance_decreased m (i + Suc n) \<and> i + Suc n \<noteq> ti)
        \<and> (\<forall>j<Suc n. \<not> (balance_decreased m (i + j) \<and> i + j \<noteq> ti))
        \<and> find_sender m ti i (k # ks) = (k # ks) ! Suc n"
        using n fs least by simp
      then show ?thesis by blast
    next
      assume a: "(\<forall>n<length ks. \<not> (balance_decreased m (Suc i + n) \<and> Suc i + n \<noteq> ti))
         \<and> find_sender m ti (Suc i) ks = ''unknown''"
      have none: "\<forall>n<length (k # ks). \<not> (balance_decreased m (i + n) \<and> i + n \<noteq> ti)"
      proof (intro allI impI)
        fix n assume "n < length (k # ks)"
        show "\<not> (balance_decreased m (i + n) \<and> i + n \<noteq> ti)"
        proof (cases n)
          case 0
          with False show ?thesis by simp
        next
          case (Suc n')
          with \<open>n < length (k # ks)\<close> a show ?thesis by simp
        qed
      qed
      from a fs have "find_sender m ti i (k # ks) = ''unknown''" by simp
      with none show ?thesis by blast
    qed
  qed
qed

lemma find_sender_found:
  assumes "i < length ks" and "balance_decreased m i \<and> i \<noteq> ti"
    and "\<forall>j<i. \<not> (balance_decreased m j \<and> j \<noteq> ti)"
  shows "find_sender m ti 0 ks = ks ! i"
proof -
  from find_sender_char [of ks m 0 ti] assms(1,2)
  obtain n where n: "n < length ks" "balance_decreased m n \<and> n \<noteq> ti"
    "\<forall>j<n. \<not> (balance_decreased m j \<and> j \<noteq> ti)" "find_sender m ti 0 ks = ks ! n"
    by auto
  have "n = i"
  proof (rule ccontr)
    assume "n \<noteq> i"
    then consider "n < i" | "i < n" by linarith
    then show False
    proof cases
      case 1
      with assms(3) n(2) show False by blast
    next
      case 2
      with n(3) assms(2) show False by blast
    qed
  qed
  with n(4) show ?thesis by simp
qed

lemma find_sender_none:
  assumes "\<forall>j<length ks. \<not> (balance_decreased m j \<and> j \<noteq> ti)"
  shows "find_sender m ti 0 ks = ''unknown''"
  using find_sender_char [of ks m 0 ti] assms by auto

lemma balance_decreased_iff:
  "balance_decreased m i \<longleftrightarrow>
     i < length (preBalances m) \<and> i < length (postBalances m)
     \<and> postBalances m ! i < preBalances m ! i"
  by (simp add: balance_decreased_def js_gt_def js_nth_def)

lemma double_exponent_small: "n < 9007199254740992 \<Longrightarrow> double_exponent n = 0"
  by (simp add: double_exponent.simps)

lemma round_nat_small: "n < 9007199254740992 \<Longrightarrow> round_nat n = n"
  by (simp add: round_nat_def double_exponent_small)

lemma double_exponent_2_53: "double_exponent 9007199254740992 = 1"
  by (simp add: double_exponent.simps [of 9007199254740992] double_exponent_small)

lemma round_nat_2_53: "round_nat 9007199254740992 = 9007199254740992"
  by (simp add: round_nat_def double_exponent_2_53)

lemma round_nat_le_2_53: "n \<le> 9007199254740992 \<Longrightarrow> round_nat n = n"
  using round_nat_small [of n] round_nat_2_53 by (cases "n = 9007199254740992") auto

lemma double_exponent_le: "0 < n \<Longrightarrow> 2 ^ double_exponent n \<le> n"
proof (induction n rule: double_exponent.induct)
  case (1 n)
  show ?case
  proof (cases "n < 9007199254740992")
    case True
    with "1.prems" show ?thesis by (simp add: double_exponent_small)
  next
    case False
    then have pos: "0 < n div 2" by simp
    from "1.IH" [OF False pos] have "2 ^ double_exponent (n div 2) \<le> n div 2" .
    then have "2 * 2 ^ double_exponent (n div 2) \<le> n" by simp
    with False show ?thesis by (simp add: double_exponent.simps [of n])
  qed
qed

lemma round_nat_pos: "0 < n \<Longrightarrow> 0 < round_nat n"
proof -
  assume n: "0 < n"
  let ?e = "double_exponent n"
  from double_exponent_le [OF n] have "0 < n div 2 ^ ?e"
    by (simp add: div_greater_zero_iff)
  then have "0 < (n div 2 ^ ?e) * 2 ^ ?e" by simp
  moreover have "(n div 2 ^ ?e) * 2 ^ ?e \<le> round_nat n"
    by (simp add: round_nat_def Let_def)
  ultimately show ?thesis by linarith
qed

lemma round_double_le_zero: "round_double x \<le> 0 \<longleftrightarrow> x \<le> 0"
proof (cases "x < 0")
  case True
  then show ?thesis by (simp add: round_double_def)
next
  case False
  show ?thesis
  proof (cases "x = 0")
    case True
    then show ?thesis by (simp add: round_double_def round_nat_small)
  next
    case False
    with \<open>\<not> x < 0\<close> have "0 < nat x" by simp
    from round_nat_pos [OF this] \<open>\<not> x < 0\<close> False show ?thesis
      by (simp add: round_double_def)
  qed
qed

lemma round_double_exact:
  "- 9007199254740992 \<le> x \<Longrightarrow> x \<le> 9007199254740992 \<Longrightarrow> round_double x = x"
  by (simp add: round_double_def round_nat_le_2_53)

lemma round_double_example: "round_double 9007199254740993 = 9007199254740992"
  by (simp add: round_double_def round_nat_def double_exponent.simps [of 9007199254740993]
      double_exponent_small)

lemma parse_at_index:
  assumes "meta t = Some m" and "transaction t = Some msg"
    and "indexOf (accountKeys msg) targetPubkey = Some idx"
    and "idx < length (preBalances m)" and "idx < length (postBalances m)"
  shows "parseTipTransaction (Some t) targetPubkey =
     (if postBalances m ! idx - preBalances m ! idx \<le> 0 then Inr None
      else Inr (Some \<lparr>from_address = find_sender m idx 0 (accountKeys msg),
                       amountLamports =
                         Some (round_double (postBalances m ! idx - preBalances m ! idx)),
                       tip_slot = slot t, tip_blockTime = blockTime t\<rparr>))"
  using assms
  by (simp add: parseTipTransaction_def js_nth_def js_minus_def js_le_zero_def
      round_double_le_zero)

text \<open>
  C4, as the code has it. For a transaction whose account list holds the target
  address at index \<open>idx\<close> (its first occurrence), with both balance arrays defined
  there: a balance delta \<open>postBalances[idx] - preBalances[idx]\<close> that is zero or
  negative makes \<open>parseTipTransaction\<close> return null; a strictly positive delta
  makes it return an event whose \<open>amountLamports\<close> is the difference as computed
  on doubles, that is the delta rounded to 53 significant bits, and this is
  exactly the delta when both balances lie between 0 and \<open>2^53\<close>. A target
  address that is not in the account list makes it return null.
\<close>

theorem parse_balance_delta:
  assumes "meta t = Some m" and "transaction t = Some msg"
  shows "(targetPubkey \<notin> set (accountKeys msg) \<longrightarrow>
            parseTipTransaction (Some t) targetPubkey = Inr None)
       \<and> (idx < length (accountKeys msg) \<and> accountKeys msg ! idx = targetPubkey
              \<and> (\<forall>j<idx. accountKeys msg ! j \<noteq> targetPubkey)
              \<and> idx < length (preBalances m) \<and> idx < length (postBalances m) \<longrightarrow>
            (postBalances m ! idx - preBalances m ! idx \<le> 0 \<longrightarrow>
               parseTipTransaction (Some t) targetPubkey = Inr None)
          \<and> (0 < postBalances m ! idx - preBalances m ! idx \<longrightarrow>
               (\<exists>ev. parseTipTransaction (Some t) targetPubkey = Inr (Some ev)
                  \<and> amountLamports ev =
                      Some (round_double (postBalances m ! idx - preBalances m ! idx))))
          \<and> (0 < postBalances m ! idx - preBalances m ! idx
               \<and> 0 \<le> preBalances m ! idx \<and> postBalances m ! idx \<le> 9007199254740992 \<longrightarrow>
               (\<exists>ev. parseTipTransaction (Some t) targetPubkey = Inr (Some ev)
                  \<and> amountLamports ev = Some (postBalances m ! idx - preBalances m ! idx))))"
proof (intro conjI impI)
  assume "targetPubkey \<notin> set (accountKeys msg)"
  then have "indexOf (accountKeys msg) targetPubkey = None"
    by (simp add: indexOf_None_iff)
  with assms show "parseTipTransaction (Some t) targetPubkey = Inr None"
    by (simp add: parseTipTransaction_def)
next
  assume h: "idx < length (accountKeys msg) \<and> accountKeys msg ! idx = targetPubkey
              \<and> (\<forall>j<idx. accountKeys msg ! j \<noteq> targetPubkey)
              \<and> idx < length (preBalances m) \<and> idx < length (postBalances m)"
  then have ix: "indexOf (accountKeys msg) targetPubkey = Some idx"
    by (intro indexOf_first) auto
  from h have r: "idx < length (preBalances m)" "idx < length (postBalances m)"
    by simp_all
  note p = parse_at_index [OF assms ix r]
  {
    assume "postBalances m ! idx - preBalances m ! idx \<le> 0"
    with p show "parseTipTransaction (Some t) targetPubkey = Inr None"
      by simp
  }
  {
    assume "0 < postBalances m ! idx - preBalances m ! idx"
    with p show "\<exists>ev. parseTipTransaction (Some t) targetPubkey = Inr (Some ev)
                  \<and> amountLamports ev =
                      Some (round_double (postBalances m ! idx - preBalances m ! idx))"
      by simp
  }
  {
    assume a: "0 < postBalances m ! idx - preBalances m ! idx
               \<and> 0 \<le> preBalances m ! idx \<and> postBalances m ! idx \<le> 9007199254740992"
    then have "round_double (postBalances m ! idx - preBalances m ! idx)
                 = postBalances m ! idx - preBalances m ! idx"
      by (intro round_double_exact) linarith+
    with a p show "\<exists>ev. parseTipTransaction (Some t) targetPubkey = Inr (Some ev)
                  \<and> amountLamports ev = Some (postBalances m ! idx - preBalances m ! idx)"
      by simp
  }
qed

theorem parse_balance_delta_witness:
  "parseTipTransaction (Some example_tip_tx) ''Target'' =
     Inr (Some \<lparr>from_address = ''Sender'', amountLamports = Some 500000000,
                 tip_slot = 42, tip_blockTime = Some 1700000000\<rparr>)
   \<and> parseTipTransaction (Some example_tip_tx) ''Sender'' = Inr None
   \<and> parseTipTransaction (Some example_tip_tx) ''Nobody'' = Inr None"
proof -
  have m: "meta example_tip_tx = Some \<lparr>preBalances = [1000000000, 0, 1],
                   postBalances = [499995000, 500000000, 1]\<rparr>"
    by (simp add: example_tip_tx_def)
  have t: "transaction example_tip_tx =
     Some \<lparr>accountKeys = [''Sender'', ''Target'', MEMO_PROGRAM_ID],
           instructions = [\<lparr>programIdIndex = 2, data = ''8sQ''\<rparr>]\<rparr>"
    by (simp add: example_tip_tx_def)
  note pbd = parse_balance_delta [OF m t]
  have a: "\<exists>ev. parseTipTransaction (Some example_tip_tx) ''Target'' = Inr (Some ev)
     \<and> amountLamports ev = Some 500000000"
    using pbd [of "''Target''" 1] by (simp add: MEMO_PROGRAM_ID_def)
  have b: "parseTipTransaction (Some example_tip_tx) ''Sender'' = Inr None"
    using pbd [of "''Sender''" 0] by (simp add: MEMO_PROGRAM_ID_def)
  have c: "parseTipTransaction (Some example_tip_tx) ''Nobody'' = Inr None"
    using pbd [of "''Nobody''" 0] by (simp add: MEMO_PROGRAM_ID_def)
  have ix: "indexOf (accountKeys \<lparr>accountKeys = [''Sender'', ''Target'', MEMO_PROGRAM_ID],
           instructions = [\<lparr>programIdIndex = 2, data = ''8sQ''\<rparr>]\<rparr>) ''Target'' = Some 1"
    by simp
  have d: "find_sender \<lparr>preBalances = [1000000000, 0, 1],
                   postBalances = [499995000, 500000000, 1]\<rparr> 1 0
             [''Sender'', ''Target'', MEMO_PROGRAM_ID] = ''Sender''"
    by (simp add: balance_decreased_iff)
  from a d parse_at_index [OF m t ix]
  have "parseTipTransaction (Some example_tip_tx) ''Target'' =
     Inr (Some \<lparr>from_address = ''Sender'', amountLamports = Some 500000000,
                 tip_slot = 42, tip_blockTime = Some 1700000000\<rparr>)"
    by (auto simp: example_tip_tx_def split: if_splits)
  with b c show ?thesis by simp
qed

theorem parse_rounded_delta_counterexample:
  "parseTipTransaction (Some large_balance_tx) ''Target'' =
     Inr (Some \<lparr>from_address = ''Sender'', amountLamports = Some 9007199254740992,
                 tip_slot = 44, tip_blockTime = Some 1700000003\<rparr>)
   \<and> 9007199254740994 - 1 \<noteq> (9007199254740992 :: int)"
  by (simp add: parseTipTransaction_def large_balance_tx_def js_nth_def js_minus_def
      js_le_zero_def balance_decreased_iff round_double_example)

text \<open>
  C5. Whenever \<open>parseTipTransaction\<close> returns an event for a target at index
  \<open>ti\<close> of the account list, its sender is the account key at the first index
  \<open>i\<close>, in list order and other than \<open>ti\<close>, at which the post-balance is strictly
  below the pre-balance; when no index other than \<open>ti\<close> shows such a decrease the
  sender is the string \<open>unknown\<close>. A credited target with no decreasing account
  still yields an event.
\<close>

theorem parse_sender:
  assumes "meta t = Some m" and "transaction t = Some msg"
    and "ti < length (accountKeys msg)" and "accountKeys msg ! ti = targetPubkey"
    and "\<forall>j<ti. accountKeys msg ! j \<noteq> targetPubkey"
  shows "(\<forall>ev. parseTipTransaction (Some t) targetPubkey = Inr (Some ev) \<longrightarrow>
            (i < length (accountKeys msg) \<and> i \<noteq> ti
               \<and> i < length (preBalances m) \<and> i < length (postBalances m)
               \<and> postBalances m ! i < preBalances m ! i
               \<and> (\<forall>j<i. j \<noteq> ti \<longrightarrow>
                     \<not> (j < length (preBalances m) \<and> j < length (postBalances m)
                        \<and> postBalances m ! j < preBalances m ! j)) \<longrightarrow>
             from_address ev = accountKeys msg ! i)
          \<and> ((\<forall>j<length (accountKeys msg). j \<noteq> ti \<longrightarrow>
                     \<not> (j < length (preBalances m) \<and> j < length (postBalances m)
                        \<and> postBalances m ! j < preBalances m ! j)) \<longrightarrow>
             from_address ev = ''unknown''))
       \<and> (ti < length (preBalances m) \<and> ti < length (postBalances m)
            \<and> preBalances m ! ti < postBalances m ! ti
            \<and> (\<forall>j<length (accountKeys msg). j \<noteq> ti \<longrightarrow>
                     \<not> (j < length (preBalances m) \<and> j < length (postBalances m)
                        \<and> postBalances m ! j < preBalances m ! j)) \<longrightarrow>
          (\<exists>ev. parseTipTransaction (Some t) targetPubkey = Inr (Some ev)
             \<and> from_address ev = ''unknown''))"
proof -
  from assms(3-5) have ix: "indexOf (accountKeys msg) targetPubkey = Some ti"
    by (intro indexOf_first) auto
  have sender: "from_address ev = find_sender m ti 0 (accountKeys msg)"
    if "parseTipTransaction (Some t) targetPubkey = Inr (Some ev)" for ev
    using that assms(1,2) ix
    by (auto simp: parseTipTransaction_def Let_def split: if_splits)
  have found: "find_sender m ti 0 (accountKeys msg) = accountKeys msg ! i"
    if "i < length (accountKeys msg) \<and> i \<noteq> ti
               \<and> i < length (preBalances m) \<and> i < length (postBalances m)
               \<and> postBalances m ! i < preBalances m ! i
               \<and> (\<forall>j<i. j \<noteq> ti \<longrightarrow>
                     \<not> (j < length (preBalances m) \<and> j < length (postBalances m)
                        \<and> postBalances m ! j < preBalances m ! j))"
    using that by (intro find_sender_found) (auto simp: balance_decreased_iff)
  have none: "find_sender m ti 0 (accountKeys msg) = ''unknown''"
    if "\<forall>j<length (accountKeys msg). j \<noteq> ti \<longrightarrow>
                     \<not> (j < length (preBalances m) \<and> j < length (postBalances m)
                        \<and> postBalances m ! j < preBalances m ! j)"
    using that by (intro find_sender_none) (auto simp: balance_decreased_iff)
  have still: "\<exists>ev. parseTipTransaction (Some t) targetPubkey = Inr (Some ev)
             \<and> from_address ev = ''unknown''"
    if "ti < length (preBalances m) \<and> ti < length (postBalances m)
            \<and> preBalances m ! ti < postBalances m ! ti
            \<and> (\<forall>j<length (accountKeys msg). j \<noteq> ti \<longrightarrow>
                     \<not> (j < length (preBalances m) \<and> j < length (postBalances m)
                        \<and> postBalances m ! j < preBalances m ! j))"
  proof -
    from that have r: "ti < length (preBalances m)" "ti < length (postBalances m)"
      by simp_all
    from parse_at_index [OF assms(1,2) ix r] that none show ?thesis
      by simp
  qed
  from sender found none still show ?thesis by simp
qed

theorem parse_sender_witness:
  "(\<exists>ev. parseTipTransaction (Some example_tip_tx) ''Target'' = Inr (Some ev)
         \<and> from_address ev = ''Sender'')
   \<and> (\<exists>ev. parseTipTransaction (Some example_relayed_tx) ''Target'' = Inr (Some ev)
         \<and> from_address ev = ''unknown'')"
proof -
  have m: "meta example_tip_tx = Some \<lparr>preBalances = [1000000000, 0, 1],
                   postBalances = [499995000, 500000000, 1]\<rparr>"
    by (simp add: example_tip_tx_def)
  have t: "transaction example_tip_tx =
     Some \<lparr>accountKeys = [''Sender'', ''Target'', MEMO_PROGRAM_ID],
           instructions = [\<lparr>programIdIndex = 2, data = ''8sQ''\<rparr>]\<rparr>"
    by (simp add: example_tip_tx_def)
  have a: "\<forall>ev. parseTipTransaction (Some example_tip_tx) ''Target'' = Inr (Some ev) \<longrightarrow>
      from_address ev = ''Sender''"
    using parse_sender [OF m t, of 1 "''Target''" 0] by simp
  have b: "\<exists>ev. parseTipTransaction (Some example_tip_tx) ''Target'' = Inr (Some ev)"
    by (simp add: parseTipTransaction_def example_tip_tx_def js_nth_def js_minus_def
        js_le_zero_def round_double_le_zero)
  have m2: "meta example_relayed_tx = Some \<lparr>preBalances = [5, 0], postBalances = [5, 7]\<rparr>"
    by (simp add: example_relayed_tx_def)
  have t2: "transaction example_relayed_tx =
     Some \<lparr>accountKeys = [''Relayer'', ''Target''], instructions = []\<rparr>"
    by (simp add: example_relayed_tx_def)
  have c: "\<exists>ev. parseTipTransaction (Some example_relayed_tx) ''Target'' = Inr (Some ev)
         \<and> from_address ev = ''unknown''"
    using parse_sender [OF m2 t2, of 1 "''Target''" 0] by (simp add: less_Suc_eq)
  from a b c show ?thesis by blast
qed

section \<open>Properties of the broadcaster\<close>

lemma fan_out_Send:
  "Send w m \<in> set (fan_out subm sid message cs) \<Longrightarrow>
     m = message \<and> (\<exists>subs. subm w = Some subs \<and> sid \<in> subs)"
  by (induction cs) (auto split: option.splits if_splits)

lemma sends_to_set: "(w, m) \<in> set (sends_to es) \<longleftrightarrow> Send w m \<in> set es"
  by (induction es rule: sends_to.induct) auto

lemma sends_to_append: "sends_to (xs @ ys) = sends_to xs @ sends_to ys"
  by (induction xs rule: sends_to.induct) auto

lemma broadcastTip_effects:
  "snd (broadcastTip opts now b sid tipData) =
     (if fst (shouldBroadcast opts now (alertCounts b) sid)
      then fan_out (subscriptions b) sid (Tip tipData) (clients b)
             @ [Console (BroadcastedTip sid
                  (length (fan_out (subscriptions b) sid (Tip tipData) (clients b))))]
      else [Console (RateLimitExceeded sid)])"
  by (cases "shouldBroadcast opts now (alertCounts b) sid")
     (auto simp: broadcastTip_def Let_def split: bool.splits)

lemma broadcastTip_state:
  "fst (broadcastTip opts now b sid tipData) =
     b\<lparr>alertCounts := snd (shouldBroadcast opts now (alertCounts b) sid)\<rparr>"
  by (cases "shouldBroadcast opts now (alertCounts b) sid")
     (auto simp: broadcastTip_def Let_def split: bool.splits)

lemma shouldBroadcast_fst:
  "fst (shouldBroadcast opts now ac sid) \<longleftrightarrow>
     int (length (filter (\<lambda>entry. now - entry < alertWindowMs opts)
            (case ac sid of None \<Rightarrow> [] | Some cs \<Rightarrow> cs))) < maxAlertsPerWindow opts"
  by (auto simp: shouldBroadcast_def Let_def split: option.splits)

lemma shouldBroadcast_snd:
  "(case snd (shouldBroadcast opts now ac sid) sid of None \<Rightarrow> [] | Some cs \<Rightarrow> cs) =
     (if fst (shouldBroadcast opts now ac sid)
      then filter (\<lambda>entry. now - entry < alertWindowMs opts)
             (case ac sid of None \<Rightarrow> [] | Some cs \<Rightarrow> cs) @ [now]
      else (case ac sid of None \<Rightarrow> [] | Some cs \<Rightarrow> cs))"
  by (auto simp: shouldBroadcast_def Let_def split: option.splits)

lemma delivered_iff:
  "delivered sid (snd (broadcastTip opts now b sid tipData)) \<longleftrightarrow>
     fst (shouldBroadcast opts now (alertCounts b) sid)"
proof -
  have "xs @ [Console (BroadcastedTip sid n)] \<noteq> [Console (RateLimitExceeded sid)]" for xs n
    by (cases xs) auto
  then show ?thesis
    by (simp add: delivered_def broadcastTip_effects)
qed

lemma delivered_window:
  "delivered sid (snd (broadcastTip opts now b sid tipData)) \<longleftrightarrow>
     int (length (filter (\<lambda>entry. now - entry < alertWindowMs opts) (recorded b sid)))
       < maxAlertsPerWindow opts"
  by (simp add: delivered_iff shouldBroadcast_fst recorded_def)

lemma recorded_after:
  "recorded (fst (broadcastTip opts now b sid tipData)) sid =
     (if delivered sid (snd (broadcastTip opts now b sid tipData))
      then filter (\<lambda>entry. now - entry < alertWindowMs opts) (recorded b sid) @ [now]
      else recorded b sid)"
  using shouldBroadcast_snd [of opts now "alertCounts b" sid]
  by (simp add: delivered_iff broadcastTip_state recorded_def)

lemma filter_all: "(\<forall>x\<in>set xs. P x) \<Longrightarrow> filter P xs = xs"
  by (induction xs) auto

lemma broadcast_seq_count:
  "recorded b sid = cs \<Longrightarrow>
   sorted_wrt (\<lambda>e t. t - e < alertWindowMs opts) (cs @ map fst pubs) \<Longrightarrow>
   length (filter (delivered sid) (snd (broadcast_seq opts b sid pubs)))
     = min (length pubs) (nat (maxAlertsPerWindow opts) - length cs)"
proof (induction pubs arbitrary: b cs)
  case Nil
  then show ?case by simp
next
  case (Cons p pubs)
  obtain now tipData where p: "p = (now, tipData)" by (cases p)
  let ?r = "broadcastTip opts now b sid tipData"
  obtain b1 effs where r: "?r = (b1, effs)" by (cases ?r)
  obtain b2 later where s: "broadcast_seq opts b1 sid pubs = (b2, later)"
    by (cases "broadcast_seq opts b1 sid pubs")
  from Cons.prems(2) p have inwin: "\<forall>e\<in>set cs. now - e < alertWindowMs opts"
    by (auto simp: sorted_wrt_append)
  then have filt: "filter (\<lambda>entry. now - entry < alertWindowMs opts) (recorded b sid) = cs"
    using Cons.prems(1) by (simp add: filter_all)
  have d: "delivered sid effs \<longleftrightarrow> int (length cs) < maxAlertsPerWindow opts"
    using delivered_window [of sid opts now b tipData] r filt by simp
  have rec1: "recorded b1 sid = (if delivered sid effs then cs @ [now] else cs)"
    using recorded_after [of opts now b sid tipData] r filt Cons.prems(1) by simp
  have total: "snd (broadcast_seq opts b sid (p # pubs)) = effs # later"
    using p r s by simp
  show ?case
  proof (cases "delivered sid effs")
    case True
    with rec1 have rec: "recorded b1 sid = cs @ [now]" by simp
    from Cons.prems(2) p
    have "sorted_wrt (\<lambda>e t. t - e < alertWindowMs opts) ((cs @ [now]) @ map fst pubs)"
      by (auto simp: sorted_wrt_append)
    from Cons.IH [OF rec this] s
    have "length (filter (delivered sid) later)
            = min (length pubs) (nat (maxAlertsPerWindow opts) - length (cs @ [now]))"
      by simp
    moreover from True d have "length cs < nat (maxAlertsPerWindow opts)" by linarith
    then have "Suc (min (length pubs) (nat (maxAlertsPerWindow opts) - Suc (length cs)))
                 = min (Suc (length pubs)) (nat (maxAlertsPerWindow opts) - length cs)"
      by arith
    ultimately show ?thesis using total True by simp
  next
    case False
    with rec1 have rec: "recorded b1 sid = cs" by simp
    from Cons.prems(2) p
    have "sorted_wrt (\<lambda>e t. t - e < alertWindowMs opts) (cs @ map fst pubs)"
      by (auto simp: sorted_wrt_append)
    from Cons.IH [OF rec this] s
    have "length (filter (delivered sid) later)
            = min (length pubs) (nat (maxAlertsPerWindow opts) - length cs)"
      by simp
    moreover from False d have "nat (maxAlertsPerWindow opts) - length cs = 0" by linarith
    ultimately show ?thesis using total False by simp
  qed
qed

lemma fan_out_sends:
  "sends_to (fan_out subm sid message cs) =
     map (\<lambda>ws. (ws_id ws, message))
       (filter (\<lambda>ws. (\<exists>subs. subm (ws_id ws) = Some subs \<and> sid \<in> subs) \<and> readyState ws = 1)
          cs)"
  by (induction cs) (auto split: option.splits)

lemma broadcastTip_sends:
  "sends_to (snd (broadcastTip opts now b sid tipData)) =
     (if delivered sid (snd (broadcastTip opts now b sid tipData))
      then map (\<lambda>ws. (ws_id ws, Tip tipData))
             (filter (\<lambda>ws. (\<exists>subs. subscriptions b (ws_id ws) = Some subs \<and> sid \<in> subs)
                            \<and> readyState ws = 1) (clients b))
      else [])"
  unfolding delivered_iff
  by (simp add: broadcastTip_effects sends_to_append fan_out_sends)

lemma broadcastTip_dropped:
  "\<not> delivered sid (snd (broadcastTip opts now b sid tipData)) \<Longrightarrow>
   snd (broadcastTip opts now b sid tipData) = [Console (RateLimitExceeded sid)]"
  by (simp add: delivered_def)

lemma broadcastTip_keeps:
  "clients (fst (broadcastTip opts now b sid tipData)) = clients b
   \<and> subscriptions (fst (broadcastTip opts now b sid tipData)) = subscriptions b"
  by (simp add: broadcastTip_state)

lemma no_send_to_other:
  "w \<notin> ws_id ` set cs \<Longrightarrow>
   filter (\<lambda>p. fst p = w) (map (\<lambda>ws. (ws_id ws, message)) (filter P cs)) = []"
  by (induction cs) auto

lemma one_send_to_member:
  "distinct (map ws_id cs) \<Longrightarrow> ws \<in> set cs \<Longrightarrow> P ws \<Longrightarrow>
   map snd (filter (\<lambda>p. fst p = ws_id ws) (map (\<lambda>ws. (ws_id ws, message)) (filter P cs)))
     = [message]"
proof (induction cs)
  case Nil
  then show ?case by simp
next
  case (Cons c cs)
  show ?case
  proof (cases "c = ws")
    case True
    from Cons.prems(1) True have "ws_id ws \<notin> ws_id ` set cs" by simp
    from no_send_to_other [OF this, of message P] True Cons.prems(3) show ?thesis
      by simp
  next
    case False
    with Cons.prems(2) have mem: "ws \<in> set cs" by simp
    with Cons.prems(1) have "ws_id c \<noteq> ws_id ws" by auto
    moreover from Cons.prems(1) have "distinct (map ws_id cs)" by simp
    ultimately show ?thesis
      using Cons.IH [OF _ mem Cons.prems(3)] by simp
  qed
qed

lemma received_Cons:
  "received w (effs # later) =
     map snd (filter (\<lambda>p. fst p = w) (sends_to effs)) @ received w later"
  by (simp add: received_def sends_to_append)

lemma broadcast_seq_received:
  assumes "distinct (map ws_id (clients b))" and "ws \<in> set (clients b)"
    and "readyState ws = 1" and "subscriptions b (ws_id ws) = Some subs" and "sid \<in> subs"
  shows "recorded b sid = cs \<Longrightarrow>
   sorted_wrt (\<lambda>e t. t - e < alertWindowMs opts) (cs @ map fst pubs) \<Longrightarrow>
   received (ws_id ws) (snd (broadcast_seq opts b sid pubs))
     = map (\<lambda>p. Tip (snd p)) (take (nat (maxAlertsPerWindow opts) - length cs) pubs)"
  using assms
proof (induction pubs arbitrary: b cs)
  case Nil
  then show ?case by (simp add: received_def)
next
  case (Cons p pubs)
  obtain now tipData where p: "p = (now, tipData)" by (cases p)
  let ?r = "broadcastTip opts now b sid tipData"
  obtain b1 effs where r: "?r = (b1, effs)" by (cases ?r)
  obtain b2 later where s: "broadcast_seq opts b1 sid pubs = (b2, later)"
    by (cases "broadcast_seq opts b1 sid pubs")
  from Cons.prems(2) p have inwin: "\<forall>e\<in>set cs. now - e < alertWindowMs opts"
    by (auto simp: sorted_wrt_append)
  then have filt: "filter (\<lambda>entry. now - entry < alertWindowMs opts) (recorded b sid) = cs"
    using Cons.prems(1) by (simp add: filter_all)
  have d: "delivered sid effs \<longleftrightarrow> int (length cs) < maxAlertsPerWindow opts"
    using delivered_window [of sid opts now b tipData] r filt by simp
  have rec1: "recorded b1 sid = (if delivered sid effs then cs @ [now] else cs)"
    using recorded_after [of opts now b sid tipData] r filt Cons.prems(1) by simp
  have keep: "clients b1 = clients b" "subscriptions b1 = subscriptions b"
    using broadcastTip_keeps [of opts now b sid tipData] r by simp_all
  have total: "snd (broadcast_seq opts b sid (p # pubs)) = effs # later"
    using p r s by simp
  have here: "map snd (filter (\<lambda>p. fst p = ws_id ws) (sends_to effs))
                = (if delivered sid effs then [Tip tipData] else [])"
  proof (cases "delivered sid effs")
    case True
    have "(\<exists>subs. subscriptions b (ws_id ws) = Some subs \<and> sid \<in> subs) \<and> readyState ws = 1"
      using Cons.prems(5-7) by simp
    from one_send_to_member [OF Cons.prems(3,4),
        of "\<lambda>ws. (\<exists>subs. subscriptions b (ws_id ws) = Some subs \<and> sid \<in> subs)
                    \<and> readyState ws = 1" "Tip tipData", OF this]
    show ?thesis
      using broadcastTip_sends [of opts now b sid tipData] r True by simp
  next
    case False
    then show ?thesis
      using broadcastTip_sends [of opts now b sid tipData] r by simp
  qed
  note prem1 = Cons.prems(3-7) [folded keep]
  show ?case
  proof (cases "delivered sid effs")
    case True
    with rec1 have rec: "recorded b1 sid = cs @ [now]" by simp
    from Cons.prems(2) p
    have "sorted_wrt (\<lambda>e t. t - e < alertWindowMs opts) ((cs @ [now]) @ map fst pubs)"
      by (auto simp: sorted_wrt_append)
    from Cons.IH [OF rec this] prem1 keep s
    have "received (ws_id ws) later
            = map (\<lambda>p. Tip (snd p))
                (take (nat (maxAlertsPerWindow opts) - length (cs @ [now])) pubs)"
      by simp
    moreover from True d have "length cs < nat (maxAlertsPerWindow opts)" by linarith
    then obtain k where "nat (maxAlertsPerWindow opts) - length cs = Suc k"
      "nat (maxAlertsPerWindow opts) - length (cs @ [now]) = k"
      by (cases "nat (maxAlertsPerWindow opts) - length cs") auto
    ultimately show ?thesis using total True here p
      by (simp add: received_Cons)
  next
    case False
    with rec1 have rec: "recorded b1 sid = cs" by simp
    from Cons.prems(2) p
    have "sorted_wrt (\<lambda>e t. t - e < alertWindowMs opts) (cs @ map fst pubs)"
      by (auto simp: sorted_wrt_append)
    from Cons.IH [OF rec this] prem1 keep s
    have "received (ws_id ws) later
            = map (\<lambda>p. Tip (snd p)) (take (nat (maxAlertsPerWindow opts) - length cs) pubs)"
      by simp
    moreover from False d have "nat (maxAlertsPerWindow opts) - length cs = 0" by linarith
    ultimately show ?thesis using total False here
      by (simp add: received_Cons)
  qed
qed

text \<open>
  C3, as the code has it. The entries kept are those with \<open>now - entry\<close> strictly
  below the window, so an entry exactly one window old is pruned. When fewer
  kept entries than the budget remain, the publish is delivered: the tip is sent to
  every open socket whose subscription set holds the streamer id, in the order of
  the clients, and \<open>now\<close> is recorded. Otherwise it is dropped: the only effect
  is the rate-limit warning, nothing is sent and nothing recorded. Starting with
  nothing recorded, of a run of publishes that all fall within one window an open
  subscribed socket (each socket being once in the set of clients) receives the
  tips of the first budget-many and no other, so budget + 1 publishes deliver
  exactly the budget. Once every recorded emission is
  a full window old, a publish under a positive budget is delivered.
\<close>

theorem rate_limit_window:
  "(int (length (filter (\<lambda>entry. now - entry < alertWindowMs opts) (recorded b sid)))
        < maxAlertsPerWindow opts \<longrightarrow>
      delivered sid (snd (broadcastTip opts now b sid tipData))
    \<and> sends_to (snd (broadcastTip opts now b sid tipData))
        = map (\<lambda>ws. (ws_id ws, Tip tipData))
            (filter (\<lambda>ws. (\<exists>subs. subscriptions b (ws_id ws) = Some subs \<and> sid \<in> subs)
                           \<and> readyState ws = 1) (clients b))
    \<and> recorded (fst (broadcastTip opts now b sid tipData)) sid
        = filter (\<lambda>entry. now - entry < alertWindowMs opts) (recorded b sid) @ [now])
 \<and> (\<not> int (length (filter (\<lambda>entry. now - entry < alertWindowMs opts) (recorded b sid)))
        < maxAlertsPerWindow opts \<longrightarrow>
      \<not> delivered sid (snd (broadcastTip opts now b sid tipData))
    \<and> snd (broadcastTip opts now b sid tipData) = [Console (RateLimitExceeded sid)]
    \<and> sends_to (snd (broadcastTip opts now b sid tipData)) = []
    \<and> recorded (fst (broadcastTip opts now b sid tipData)) sid = recorded b sid)
 \<and> (recorded b sid = []
      \<and> sorted_wrt (\<lambda>e t. t - e < alertWindowMs opts) (map fst pubs)
      \<and> distinct (map ws_id (clients b)) \<and> ws \<in> set (clients b) \<and> readyState ws = 1
      \<and> subscriptions b (ws_id ws) = Some subs \<and> sid \<in> subs \<longrightarrow>
      received (ws_id ws) (snd (broadcast_seq opts b sid pubs))
        = map (\<lambda>p. Tip (snd p)) (take (nat (maxAlertsPerWindow opts)) pubs))
 \<and> (recorded b sid = []
      \<and> sorted_wrt (\<lambda>e t. t - e < alertWindowMs opts) (map fst pubs) \<longrightarrow>
      length (filter (delivered sid) (snd (broadcast_seq opts b sid pubs)))
        = min (length pubs) (nat (maxAlertsPerWindow opts)))
 \<and> ((\<forall>e\<in>set (recorded b sid). alertWindowMs opts \<le> now - e)
      \<and> 0 < maxAlertsPerWindow opts \<longrightarrow>
      delivered sid (snd (broadcastTip opts now b sid tipData))
    \<and> sends_to (snd (broadcastTip opts now b sid tipData))
        = map (\<lambda>ws. (ws_id ws, Tip tipData))
            (filter (\<lambda>ws. (\<exists>subs. subscriptions b (ws_id ws) = Some subs \<and> sid \<in> subs)
                           \<and> readyState ws = 1) (clients b)))"
proof (intro conjI impI)
  assume "int (length (filter (\<lambda>entry. now - entry < alertWindowMs opts) (recorded b sid)))
        < maxAlertsPerWindow opts"
  then have d: "delivered sid (snd (broadcastTip opts now b sid tipData))"
    by (simp add: delivered_window)
  then show "delivered sid (snd (broadcastTip opts now b sid tipData))" .
  from d show "sends_to (snd (broadcastTip opts now b sid tipData))
        = map (\<lambda>ws. (ws_id ws, Tip tipData))
            (filter (\<lambda>ws. (\<exists>subs. subscriptions b (ws_id ws) = Some subs \<and> sid \<in> subs)
                           \<and> readyState ws = 1) (clients b))"
    by (simp add: broadcastTip_sends)
  from d show "recorded (fst (broadcastTip opts now b sid tipData)) sid
        = filter (\<lambda>entry. now - entry < alertWindowMs opts) (recorded b sid) @ [now]"
    by (simp add: recorded_after)
next
  assume "\<not> int (length (filter (\<lambda>entry. now - entry < alertWindowMs opts) (recorded b sid)))
        < maxAlertsPerWindow opts"
  then have nd: "\<not> delivered sid (snd (broadcastTip opts now b sid tipData))"
    by (simp add: delivered_window)
  then show "\<not> delivered sid (snd (broadcastTip opts now b sid tipData))" .
  from nd show "snd (broadcastTip opts now b sid tipData) = [Console (RateLimitExceeded sid)]"
    by (rule broadcastTip_dropped)
  from nd show "sends_to (snd (broadcastTip opts now b sid tipData)) = []"
    by (simp add: broadcastTip_sends)
  from nd show "recorded (fst (broadcastTip opts now b sid tipData)) sid = recorded b sid"
    by (simp add: recorded_after)
next
  assume h: "recorded b sid = []
      \<and> sorted_wrt (\<lambda>e t. t - e < alertWindowMs opts) (map fst pubs)
      \<and> distinct (map ws_id (clients b)) \<and> ws \<in> set (clients b) \<and> readyState ws = 1
      \<and> subscriptions b (ws_id ws) = Some subs \<and> sid \<in> subs"
  then have "sorted_wrt (\<lambda>e t. t - e < alertWindowMs opts) ([] @ map fst pubs)" by simp
  from broadcast_seq_received [of b ws subs sid "[]" opts pubs, OF _ _ _ _ _ _ this] h
  show "received (ws_id ws) (snd (broadcast_seq opts b sid pubs))
        = map (\<lambda>p. Tip (snd p)) (take (nat (maxAlertsPerWindow opts)) pubs)"
    by simp
next
  assume "recorded b sid = []
      \<and> sorted_wrt (\<lambda>e t. t - e < alertWindowMs opts) (map fst pubs)"
  then show "length (filter (delivered sid) (snd (broadcast_seq opts b sid pubs)))
        = min (length pubs) (nat (maxAlertsPerWindow opts))"
    using broadcast_seq_count [of b sid "[]" opts pubs] by simp
next
  assume h: "(\<forall>e\<in>set (recorded b sid). alertWindowMs opts \<le> now - e)
      \<and> 0 < maxAlertsPerWindow opts"
  then have "filter (\<lambda>entry. now - entry < alertWindowMs opts) (recorded b sid) = []"
    by (auto simp: filter_empty_conv)
  with h show d: "delivered sid (snd (broadcastTip opts now b sid tipData))"
    by (simp add: delivered_window)
  then show "sends_to (snd (broadcastTip opts now b sid tipData))
        = map (\<lambda>ws. (ws_id ws, Tip tipData))
            (filter (\<lambda>ws. (\<exists>subs. subscriptions b (ws_id ws) = Some subs \<and> sid \<in> subs)
                           \<and> readyState ws = 1) (clients b))"
    by (simp add: broadcastTip_sends)
qed

theorem rate_limit_window_witness:
  "received 1 (snd (broadcast_seq example_options example_broadcaster ''alice''
       [(0, example_tip), (300, example_tip\<lparr>txHash := ''sig2''\<rparr>),
        (900, example_tip\<lparr>txHash := ''sig3''\<rparr>)]))
     = [Tip example_tip, Tip (example_tip\<lparr>txHash := ''sig2''\<rparr>)]
   \<and> sends_to (snd (broadcastTip example_options 10300
               (example_broadcaster\<lparr>alertCounts := [''alice'' \<mapsto> [0, 300]]\<rparr>)
               ''alice'' example_tip))
     = [(1, Tip example_tip)]"
proof -
  have r: "recorded example_broadcaster ''alice'' = []"
    by (simp add: recorded_def example_broadcaster_def)
  have c: "clients example_broadcaster
             = [\<lparr>ws_id = 1, readyState = 1\<rparr>, \<lparr>ws_id = 2, readyState = 1\<rparr>,
                \<lparr>ws_id = 3, readyState = 3\<rparr>]"
    by (simp add: example_broadcaster_def)
  have s: "subscriptions example_broadcaster 1 = Some {''alice''}"
    by (simp add: example_broadcaster_def)
  have a: "received 1 (snd (broadcast_seq example_options example_broadcaster ''alice''
       [(0, example_tip), (300, example_tip\<lparr>txHash := ''sig2''\<rparr>),
        (900, example_tip\<lparr>txHash := ''sig3''\<rparr>)]))
     = [Tip example_tip, Tip (example_tip\<lparr>txHash := ''sig2''\<rparr>)]"
    using rate_limit_window [of 0 example_options example_broadcaster "''alice''" example_tip
        "[(0, example_tip), (300, example_tip\<lparr>txHash := ''sig2''\<rparr>),
          (900, example_tip\<lparr>txHash := ''sig3''\<rparr>)]"
        "\<lparr>ws_id = 1, readyState = 1\<rparr>" "{''alice''}"] r c s
    by (simp add: example_options_def numeral_2_eq_2)
  have b: "sends_to (snd (broadcastTip example_options 10300
               (example_broadcaster\<lparr>alertCounts := [''alice'' \<mapsto> [0, 300]]\<rparr>)
               ''alice'' example_tip))
     = [(1, Tip example_tip)]"
    using rate_limit_window [of 10300 example_options
        "example_broadcaster\<lparr>alertCounts := [''alice'' \<mapsto> [0, 300]]\<rparr>" "''alice''"
        example_tip "[]" "\<lparr>ws_id = 1, readyState = 1\<rparr>" "{''alice''}"]
    by (simp add: example_options_def recorded_def example_broadcaster_def)
  from a b show ?thesis by simp
qed

theorem rate_limit_boundary_counterexample:
  "recorded boundary_broadcaster ''alice'' = [0]
   \<and> spec_remaining (alertWindowMs boundary_options) 10000
        (recorded boundary_broadcaster ''alice'') = [0]
   \<and> maxAlertsPerWindow boundary_options = 1
   \<and> sends_to (snd (broadcastTip boundary_options 10000 boundary_broadcaster ''alice''
                      example_tip))
       = [(1, Tip example_tip)]"
  by (simp add: recorded_def boundary_broadcaster_def boundary_options_def spec_remaining_def
      example_broadcaster_def broadcastTip_def shouldBroadcast_def Let_def)

text \<open>
  C9. Every message \<open>broadcastTip\<close> sends for streamer id \<open>B\<close> goes to a socket
  whose subscription set contains \<open>B\<close>; a socket whose set contains \<open>A\<close> but not
  \<open>B\<close> is sent nothing.
\<close>

theorem fan_out_only_subscribers:
  "(\<forall>w m. (w, m) \<in> set (sends_to (snd (broadcastTip opts now b B tipData))) \<longrightarrow>
      (\<exists>subs. subscriptions b w = Some subs \<and> B \<in> subs))
 \<and> (\<forall>w subs. subscriptions b w = Some subs \<and> A \<in> subs \<and> B \<notin> subs \<longrightarrow>
      (\<forall>m. (w, m) \<notin> set (sends_to (snd (broadcastTip opts now b B tipData)))))"
proof -
  have only: "\<exists>subs. subscriptions b w = Some subs \<and> B \<in> subs"
    if "(w, m) \<in> set (sends_to (snd (broadcastTip opts now b B tipData)))" for w m
  proof -
    from that have "Send w m \<in> set (snd (broadcastTip opts now b B tipData))"
      by (simp add: sends_to_set)
    then have "Send w m \<in> set (fan_out (subscriptions b) B (Tip tipData) (clients b))"
      by (auto simp: broadcastTip_effects split: if_splits)
    then show ?thesis
      using fan_out_Send by blast
  qed
  then show ?thesis by fastforce
qed

theorem fan_out_only_subscribers_witness:
  "sends_to (snd (broadcastTip example_options 0 example_broadcaster ''alice'' example_tip))
     = [(1, Tip example_tip)]
   \<and> (\<forall>m. (2, m) \<notin> set (sends_to
         (snd (broadcastTip example_options 0 example_broadcaster ''alice'' example_tip))))"
proof -
  have "\<forall>m. (2, m) \<notin> set (sends_to
         (snd (broadcastTip example_options 0 example_broadcaster ''alice'' example_tip)))"
    using fan_out_only_subscribers [of example_options 0 example_broadcaster "''alice''"
        example_tip "''bob''"]
    by (simp add: example_broadcaster_def)
  moreover have "sends_to
      (snd (broadcastTip example_options 0 example_broadcaster ''alice'' example_tip))
     = [(1, Tip example_tip)]"
    by (simp add: broadcastTip_def shouldBroadcast_def example_options_def
        example_broadcaster_def Let_def)
  ultimately show ?thesis by simp
qed

text \<open>
  C10. \<open>handleMessage\<close> consults no registry. For a message selecting
  \<open>subscribe\<close> whose \<open>streamer\<close> is a non-empty string \<open>s\<close>, whatever \<open>s\<close> is, the
  socket's subscription set gains \<open>s\<close>, the other sockets' sets and the rest of
  the state are untouched, and the one message sent is \<open>subscribed\<close> for \<open>s\<close> to
  that socket. When \<open>streamer\<close> is missing or empty the state is unchanged and
  nothing is sent or logged.
\<close>

theorem subscribe_unvalidated:
  assumes "js_or (action msg) (msg_type msg) = Some ''subscribe''"
  shows "(streamer msg = Some s \<and> s \<noteq> [] \<longrightarrow>
           (\<exists>subs. subscriptions (fst (handleMessage b ws msg)) ws = Some subs
              \<and> subs = insert s (case subscriptions b ws of None \<Rightarrow> {} | Some old \<Rightarrow> old))
         \<and> (\<forall>w. w \<noteq> ws \<longrightarrow>
               subscriptions (fst (handleMessage b ws msg)) w = subscriptions b w)
         \<and> clients (fst (handleMessage b ws msg)) = clients b
         \<and> alertCounts (fst (handleMessage b ws msg)) = alertCounts b
         \<and> sends_to (snd (handleMessage b ws msg)) = [(ws, Subscribed s)])
       \<and> (streamer msg = None \<or> streamer msg = Some [] \<longrightarrow>
           handleMessage b ws msg = (b, []))"
  using assms by (auto simp: handleMessage_def Let_def js_truthy_def)

theorem subscribe_unvalidated_witness:
  "sends_to (snd (handleMessage example_broadcaster 2
       \<lparr>action = Some ''subscribe'', msg_type = None, streamer = Some ''never-registered''\<rparr>))
     = [(2, Subscribed ''never-registered'')]
   \<and> subscriptions (fst (handleMessage example_broadcaster 2
       \<lparr>action = Some ''subscribe'', msg_type = None, streamer = Some ''never-registered''\<rparr>)) 2
     = Some {''never-registered'', ''bob''}
   \<and> handleMessage example_broadcaster 2
       \<lparr>action = None, msg_type = Some ''subscribe'', streamer = Some []\<rparr>
     = (example_broadcaster, [])"
proof -
  have a: "js_or (action \<lparr>action = Some ''subscribe'', msg_type = None,
                          streamer = Some ''never-registered''\<rparr>)
             (msg_type \<lparr>action = Some ''subscribe'', msg_type = None,
                          streamer = Some ''never-registered''\<rparr>) = Some ''subscribe''"
    by (simp add: js_or_def js_truthy_def)
  have b: "js_or (action \<lparr>action = None, msg_type = Some ''subscribe'', streamer = Some []\<rparr>)
             (msg_type \<lparr>action = None, msg_type = Some ''subscribe'', streamer = Some []\<rparr>)
             = Some ''subscribe''"
    by (simp add: js_or_def js_truthy_def)
  show ?thesis
    using subscribe_unvalidated [OF a, of "''never-registered''" example_broadcaster 2]
      subscribe_unvalidated [OF b, of "''x''" example_broadcaster 2]
    by (simp add: example_broadcaster_def)
qed

section \<open>Properties of the indexer\<close>

lemma process_signatures_Cons:
  "Some s \<noteq> lastSeen \<Longrightarrow>
   process_signatures r sid pubkey lastSeen st (s # rest) =
     (fst (process_signatures r sid pubkey lastSeen (updateLastSeen st pubkey s) rest),
      processTransaction r sid pubkey s @ [UpdateLastSeen pubkey s]
        @ snd (process_signatures r sid pubkey lastSeen (updateLastSeen st pubkey s) rest))"
  by (simp add: Let_def split: prod.splits)

lemma process_signatures_skip:
  "Some s = lastSeen \<Longrightarrow>
   process_signatures r sid pubkey lastSeen st (s # rest) =
     process_signatures r sid pubkey lastSeen st rest"
  by simp

lemma process_signatures_steps:
  "snd (process_signatures r sid pubkey lastSeen st sigs) =
     concat (map (\<lambda>s. processTransaction r sid pubkey s @ [UpdateLastSeen pubkey s])
               (filter (\<lambda>s. Some s \<noteq> lastSeen) sigs))"
proof (induction sigs arbitrary: st)
  case Nil
  then show ?case by simp
next
  case (Cons s sigs)
  show ?case
  proof (cases "Some s = lastSeen")
    case True
    with Cons.IH [of st] show ?thesis
      by simp
  next
    case False
    with Cons.IH [of "updateLastSeen st pubkey s"] show ?thesis
      by (simp add: process_signatures_Cons del: process_signatures.simps)
  qed
qed

lemma process_signatures_store:
  "fst (process_signatures r sid pubkey lastSeen st sigs) =
     (if filter (\<lambda>s. Some s \<noteq> lastSeen) sigs = [] then st
      else st(pubkey \<mapsto> last (filter (\<lambda>s. Some s \<noteq> lastSeen) sigs)))"
proof (induction sigs arbitrary: st)
  case Nil
  then show ?case by simp
next
  case (Cons s sigs)
  show ?case
  proof (cases "Some s = lastSeen")
    case True
    with Cons.IH [of st] show ?thesis
      by simp
  next
    case False
    let ?new = "filter (\<lambda>s. Some s \<noteq> lastSeen) sigs"
    from False
    have "fst (process_signatures r sid pubkey lastSeen st (s # sigs)) =
            fst (process_signatures r sid pubkey lastSeen (updateLastSeen st pubkey s) sigs)"
      by (simp add: process_signatures_Cons del: process_signatures.simps)
    also have "\<dots> = (if ?new = [] then updateLastSeen st pubkey s
                     else (updateLastSeen st pubkey s)(pubkey \<mapsto> last ?new))"
      by (rule Cons.IH)
    also have "\<dots> = st(pubkey \<mapsto> last (s # ?new))"
      by (simp add: updateLastSeen_def)
    finally show ?thesis using False by simp
  qed
qed


lemma emitted_hashes_append:
  "emitted_hashes (xs @ ys) = emitted_hashes xs @ emitted_hashes ys"
  by (induction xs rule: emitted_hashes.induct) auto

lemma checkStreamerTips_page:
  assumes "valid_public_key pubkey"
    and "getSignaturesForAddress r pubkey limit (getLastSeen st pubkey) = Inr page"
  shows "checkStreamerTips r limit st sid pubkey =
           process_signatures r sid pubkey (getLastSeen st pubkey) st (rev page)"
  using assms by (simp add: checkStreamerTips_def)

lemma cycle_cursor:
  assumes "valid_public_key pubkey"
    and "getSignaturesForAddress r pubkey limit (getLastSeen st pubkey) = Inr page"
  shows "getLastSeen (fst (checkStreamerTips r limit st sid pubkey)) pubkey
           = cursor_after (getLastSeen st pubkey) page"
  by (simp add: checkStreamerTips_page [OF assms] process_signatures_store processed_def
      cursor_after_def getLastSeen_def)

lemma poll_cycles_Cons:
  "poll_cycles (r # rs) limit st sid pubkey =
     (fst (poll_cycles rs limit (fst (checkStreamerTips r limit st sid pubkey)) sid pubkey),
      snd (checkStreamerTips r limit st sid pubkey)
        @ snd (poll_cycles rs limit (fst (checkStreamerTips r limit st sid pubkey)) sid pubkey))"
  by (simp split: prod.splits)


lemma valid_RECIPIENT: "valid_public_key RECIPIENT"
  by (simp add: valid_public_key_def RECIPIENT_def bs58_decode_def BASE58_ALPHABET_def
      base58_value_def)

lemma parse_credit_tx:
  "parseTipTransaction (Some credit_tx) RECIPIENT =
     Inr (Some \<lparr>from_address = ''Sender'', amountLamports = Some 1000000,
                 tip_slot = 7, tip_blockTime = Some 1700000000\<rparr>)"
  by (simp add: parseTipTransaction_def credit_tx_def RECIPIENT_def js_nth_def js_minus_def
      js_le_zero_def balance_decreased_def js_gt_def round_double_le_zero
      round_double_exact)

lemma memo_credit_tx: "extractMemo (Some credit_tx) = (Inr None, [])"
  by (simp add: extractMemo_def credit_tx_def)

lemma meta_credit_tx: "meta credit_tx \<noteq> None"
  by (simp add: credit_tx_def)



lemma emitted_hashes_logged: "emitted_hashes (map MemoErrorLogged logged) = []"
  by (induction logged) auto

lemma emitted_hashes_one:
  "emitted_hashes (processTransaction r sid pubkey s) = []
   \<or> emitted_hashes (processTransaction r sid pubkey s) = [s]"
  by (auto simp: processTransaction_def emitted_hashes_append emitted_hashes_logged
      split: sum.splits option.splits if_splits)

lemma emitted_hashes_concat:
  "emitted_hashes (concat (map (\<lambda>s. processTransaction r sid pubkey s @ [UpdateLastSeen pubkey s]) xs))
     = filter (\<lambda>s. emitted_hashes (processTransaction r sid pubkey s) \<noteq> []) xs"
proof (induction xs)
  case Nil
  then show ?case by simp
next
  case (Cons x xs)
  from emitted_hashes_one [of r sid pubkey x] show ?case
  proof
    assume "emitted_hashes (processTransaction r sid pubkey x) = []"
    with Cons.IH show ?case by (simp add: emitted_hashes_append)
  next
    assume "emitted_hashes (processTransaction r sid pubkey x) = [x]"
    with Cons.IH show ?case by (simp add: emitted_hashes_append)
  qed
qed

lemma cycle_emitted:
  assumes "valid_public_key pubkey"
    and "getSignaturesForAddress r pubkey limit (getLastSeen st pubkey) = Inr page"
  shows "emitted_hashes (snd (checkStreamerTips r limit st sid pubkey))
           = filter (\<lambda>s. emitted_hashes (processTransaction r sid pubkey s) \<noteq> [])
               (processed (getLastSeen st pubkey) page)"
  by (simp add: checkStreamerTips_page [OF assms] process_signatures_steps processed_def
      emitted_hashes_concat)

lemma cycle_fetch_error:
  assumes "getSignaturesForAddress r pubkey limit (getLastSeen st pubkey) = Inl e"
  shows "checkStreamerTips r limit st sid pubkey = (st, [CheckErrorLogged sid])"
  using assms by (simp add: checkStreamerTips_def Let_def)

lemma poll_cycles_invalid_key:
  "\<not> valid_public_key pubkey \<Longrightarrow>
   emitted_hashes (snd (poll_cycles rs limit st sid pubkey)) = []"
proof (induction rs arbitrary: st)
  case Nil
  then show ?case by simp
next
  case (Cons r rs)
  from Cons.prems have c: "checkStreamerTips r limit st sid pubkey = (st, [CheckErrorLogged sid])"
    by (simp add: checkStreamerTips_def)
  from Cons.IH [OF Cons.prems, of st] show ?case
    by (simp add: poll_cycles_Cons c emitted_hashes_append del: poll_cycles.simps)
qed

lemma poll_cycles_fresh:
  "valid_public_key pubkey \<Longrightarrow>
   fresh_pages rs limit pubkey (getLastSeen st pubkey) seen \<Longrightarrow>
   distinct (emitted_hashes (snd (poll_cycles rs limit st sid pubkey)))
   \<and> set (emitted_hashes (snd (poll_cycles rs limit st sid pubkey))) \<inter> set seen = {}"
proof (induction rs arbitrary: st seen)
  case Nil
  then show ?case by simp
next
  case (Cons r rs)
  let ?cur = "getLastSeen st pubkey"
  let ?c = "checkStreamerTips r limit st sid pubkey"
  show ?case
  proof (cases "getSignaturesForAddress r pubkey limit ?cur")
    case (Inl e)
    then have c: "?c = (st, [CheckErrorLogged sid])"
      by (rule cycle_fetch_error)
    from Cons.prems(2) Inl have "fresh_pages rs limit pubkey ?cur seen" by simp
    from Cons.IH [OF Cons.prems(1) this] show ?thesis
      by (simp add: poll_cycles_Cons c emitted_hashes_append del: poll_cycles.simps)
  next
    case (Inr page)
    let ?new = "processed ?cur page"
    let ?E1 = "emitted_hashes (snd ?c)"
    let ?E2 = "emitted_hashes (snd (poll_cycles rs limit (fst ?c) sid pubkey))"
    from Cons.prems(2) Inr
    have d: "distinct ?new" and dj: "set ?new \<inter> set seen = {}"
      and fr: "fresh_pages rs limit pubkey (cursor_after ?cur page) (seen @ ?new)"
      by simp_all
    have e1: "?E1 = filter (\<lambda>s. emitted_hashes (processTransaction r sid pubkey s) \<noteq> []) ?new"
      by (rule cycle_emitted [OF Cons.prems(1) Inr])
    have cur: "getLastSeen (fst ?c) pubkey = cursor_after ?cur page"
      by (rule cycle_cursor [OF Cons.prems(1) Inr])
    from fr cur have "fresh_pages rs limit pubkey (getLastSeen (fst ?c) pubkey) (seen @ ?new)"
      by simp
    from Cons.IH [OF Cons.prems(1) this]
    have d2: "distinct ?E2" and dj2: "set ?E2 \<inter> set (seen @ ?new) = {}"
      by simp_all
    from e1 d have d1: "distinct ?E1" by simp
    from e1 have sub: "set ?E1 \<subseteq> set ?new" by auto
    from sub dj2 have "set ?E1 \<inter> set ?E2 = {}" by auto
    moreover from sub dj have "set ?E1 \<inter> set seen = {}" by auto
    moreover from dj2 have "set ?E2 \<inter> set seen = {}" by auto
    ultimately show ?thesis
      using d1 d2
      by (simp add: poll_cycles_Cons emitted_hashes_append Int_Un_distrib2
          del: poll_cycles.simps)
  qed
qed

text \<open>
  C2, as the code has it. The loop skips a signature only when it equals
  \<open>lastSeen\<close>, so freedom from duplicates rests on the pages: when every page,
  apart from the cursor its fetch was bounded by, holds only signatures that are
  pairwise different and were not processed in an earlier cycle, no transaction
  signature is emitted twice over any number of cycles.
\<close>

theorem no_duplicate_emission:
  assumes "fresh_pages rs limit pubkey (getLastSeen st pubkey) []"
  shows "distinct (emitted_hashes (snd (poll_cycles rs limit st sid pubkey)))"
proof (cases "valid_public_key pubkey")
  case True
  from poll_cycles_fresh [OF True assms] show ?thesis by simp
next
  case False
  then show ?thesis by (simp add: poll_cycles_invalid_key)
qed

lemma processTransaction_credit:
  "getTransaction r s = Inr (Some credit_tx) \<Longrightarrow>
   processTransaction r sid RECIPIENT s =
     [TipDetectedLogged sid,
      Emit \<lparr>streamerId = sid, streamerPubkey = RECIPIENT, td_from = ''Sender'',
            td_amountLamports = Some 1000000, txHash = s, td_slot = 7,
            td_blockTime = Some 1700000000, memo = None\<rparr>]"
  by (simp add: processTransaction_def parse_credit_tx memo_credit_tx meta_credit_tx
      js_or_def js_truthy_def)

theorem no_duplicate_emission_witness:
  "emitted_hashes (snd (poll_cycles [first_rpc, fresh_rpc] 20 Map.empty ''alice'' RECIPIENT))
     = [''s1'', ''s2'', ''s3'']
   \<and> distinct (emitted_hashes
        (snd (poll_cycles [first_rpc, fresh_rpc] 20 Map.empty ''alice'' RECIPIENT)))"
proof -
  have f: "fresh_pages [first_rpc, fresh_rpc] 20 RECIPIENT (getLastSeen Map.empty RECIPIENT) []"
    by (simp add: first_rpc_def fresh_rpc_def getLastSeen_def js_or_def js_truthy_def
        processed_def cursor_after_def)
  have e: "emitted_hashes (snd (poll_cycles [first_rpc, fresh_rpc] 20 Map.empty ''alice'' RECIPIENT))
     = [''s1'', ''s2'', ''s3'']"
    by (simp add: checkStreamerTips_def valid_RECIPIENT first_rpc_def fresh_rpc_def
        getLastSeen_def js_or_def js_truthy_def processTransaction_credit updateLastSeen_def)
  from no_duplicate_emission [OF f, of "''alice''"] e show ?thesis by simp
qed

theorem duplicate_emission_counterexample:
  "emitted_hashes
     (snd (poll_cycles [first_rpc, overlapping_rpc] 20 Map.empty ''alice'' RECIPIENT))
     = [''s1'', ''s2'', ''s1'', ''s3'']"
  by (simp add: checkStreamerTips_def valid_RECIPIENT first_rpc_def overlapping_rpc_def
      getLastSeen_def js_or_def js_truthy_def processTransaction_credit updateLastSeen_def)

section \<open>Properties of signature verification\<close>

lemma bs58_decode_invalid:
  "\<exists>c\<in>set s. c \<notin> set BASE58_ALPHABET \<Longrightarrow> bs58_decode s = Inl NonBase58Character"
  by (simp add: bs58_decode_def)

lemma verifySignature_iff:
  "fst (verifySignature ed25519 message sig pk) \<longleftrightarrow>
     (\<exists>sb pb. bs58_decode sig = Inr sb \<and> bs58_decode pk = Inr pb
        \<and> length sb = 64 \<and> length pb = 32
        \<and> ed25519 (TextEncoder_encode message) sb pb)"
  by (auto simp: verifySignature_def verifySignature_try_def nacl_sign_detached_verify_def
      Let_def split: sum.splits)

lemma verifySignature_console:
  "snd (verifySignature ed25519 message sig pk) =
     (case bs58_decode sig of
        Inl e \<Rightarrow> [e]
      | Inr sb \<Rightarrow>
          (case bs58_decode pk of
             Inl e \<Rightarrow> [e]
           | Inr pb \<Rightarrow>
               if length sb \<noteq> 64 then [BadSignatureSize]
               else if length pb \<noteq> 32 then [BadPublicKeySize]
               else []))"
  by (auto simp: verifySignature_def verifySignature_try_def nacl_sign_detached_verify_def
      Let_def split: sum.splits)

lemma verifySignature_quiet_iff:
  "snd (verifySignature ed25519 message sig pk) = [] \<longleftrightarrow>
     (\<exists>sb pb. bs58_decode sig = Inr sb \<and> bs58_decode pk = Inr pb
        \<and> length sb = 64 \<and> length pb = 32)"
  by (auto simp: verifySignature_console split: sum.splits)

text \<open>
  C6, as the code has it. \<open>verifySignature\<close> is a total function of its three
  arguments and of the ed25519 check: it never throws, and for every message a
  signature or a public key that holds a character outside the base58 alphabet, or
  that does not decode to 64 (signature) or 32 (public key) bytes, gives false. It
  gives true exactly when both decode to the scheme's lengths and the check
  accepts. It is not free of effects: on every malformed encoding the caught error
  is written to the console, one line, and on well-formed encodings nothing is
  written. Result and console line are given as functions of the arguments.
\<close>

theorem verifySignature_malformed:
  "((\<exists>c\<in>set signatureBase58. c \<notin> set BASE58_ALPHABET)
    \<or> (\<exists>c\<in>set pubkeyBase58. c \<notin> set BASE58_ALPHABET)
    \<or> (\<forall>bs. bs58_decode signatureBase58 = Inr bs \<longrightarrow> length bs \<noteq> 64)
    \<or> (\<forall>bs. bs58_decode pubkeyBase58 = Inr bs \<longrightarrow> length bs \<noteq> 32)
    \<longrightarrow> fst (verifySignature ed25519 message signatureBase58 pubkeyBase58) = False
      \<and> (\<exists>e. snd (verifySignature ed25519 message signatureBase58 pubkeyBase58) = [e]))
 \<and> (fst (verifySignature ed25519 message signatureBase58 pubkeyBase58) \<longleftrightarrow>
      (\<exists>sb pb. bs58_decode signatureBase58 = Inr sb \<and> bs58_decode pubkeyBase58 = Inr pb
         \<and> length sb = 64 \<and> length pb = 32
         \<and> ed25519 (TextEncoder_encode message) sb pb))
 \<and> (snd (verifySignature ed25519 message signatureBase58 pubkeyBase58) = [] \<longleftrightarrow>
      (\<exists>sb pb. bs58_decode signatureBase58 = Inr sb \<and> bs58_decode pubkeyBase58 = Inr pb
         \<and> length sb = 64 \<and> length pb = 32))
 \<and> snd (verifySignature ed25519 message signatureBase58 pubkeyBase58) =
      (case bs58_decode signatureBase58 of
         Inl e \<Rightarrow> [e]
       | Inr sb \<Rightarrow>
           (case bs58_decode pubkeyBase58 of
              Inl e \<Rightarrow> [e]
            | Inr pb \<Rightarrow>
                if length sb \<noteq> 64 then [BadSignatureSize]
                else if length pb \<noteq> 32 then [BadPublicKeySize]
                else []))"
proof (intro conjI impI)
  assume h: "(\<exists>c\<in>set signatureBase58. c \<notin> set BASE58_ALPHABET)
    \<or> (\<exists>c\<in>set pubkeyBase58. c \<notin> set BASE58_ALPHABET)
    \<or> (\<forall>bs. bs58_decode signatureBase58 = Inr bs \<longrightarrow> length bs \<noteq> 64)
    \<or> (\<forall>bs. bs58_decode pubkeyBase58 = Inr bs \<longrightarrow> length bs \<noteq> 32)"
  have bad: "\<not> (\<exists>sb pb. bs58_decode signatureBase58 = Inr sb \<and> bs58_decode pubkeyBase58 = Inr pb
         \<and> length sb = 64 \<and> length pb = 32)"
  proof
    assume "\<exists>sb pb. bs58_decode signatureBase58 = Inr sb \<and> bs58_decode pubkeyBase58 = Inr pb
         \<and> length sb = 64 \<and> length pb = 32"
    then obtain sb pb where d: "bs58_decode signatureBase58 = Inr sb"
      "bs58_decode pubkeyBase58 = Inr pb" "length sb = 64" "length pb = 32"
      by blast
    from h show False
    proof (elim disjE)
      assume "\<exists>c\<in>set signatureBase58. c \<notin> set BASE58_ALPHABET"
      then have "bs58_decode signatureBase58 = Inl NonBase58Character"
        by (rule bs58_decode_invalid)
      with d show False by simp
    next
      assume "\<exists>c\<in>set pubkeyBase58. c \<notin> set BASE58_ALPHABET"
      then have "bs58_decode pubkeyBase58 = Inl NonBase58Character"
        by (rule bs58_decode_invalid)
      with d show False by simp
    next
      assume "\<forall>bs. bs58_decode signatureBase58 = Inr bs \<longrightarrow> length bs \<noteq> 64"
      with d show False by simp
    next
      assume "\<forall>bs. bs58_decode pubkeyBase58 = Inr bs \<longrightarrow> length bs \<noteq> 32"
      with d show False by simp
    qed
  qed
  then show "fst (verifySignature ed25519 message signatureBase58 pubkeyBase58) = False"
    by (auto simp: verifySignature_iff)
  from bad show "\<exists>e. snd (verifySignature ed25519 message signatureBase58 pubkeyBase58) = [e]"
    by (auto simp: verifySignature_console split: sum.splits)
next
  show "fst (verifySignature ed25519 message signatureBase58 pubkeyBase58) \<longleftrightarrow>
      (\<exists>sb pb. bs58_decode signatureBase58 = Inr sb \<and> bs58_decode pubkeyBase58 = Inr pb
         \<and> length sb = 64 \<and> length pb = 32
         \<and> ed25519 (TextEncoder_encode message) sb pb)"
    by (rule verifySignature_iff)
next
  show "snd (verifySignature ed25519 message signatureBase58 pubkeyBase58) = [] \<longleftrightarrow>
      (\<exists>sb pb. bs58_decode signatureBase58 = Inr sb \<and> bs58_decode pubkeyBase58 = Inr pb
         \<and> length sb = 64 \<and> length pb = 32)"
    by (rule verifySignature_quiet_iff)
next
  show "snd (verifySignature ed25519 message signatureBase58 pubkeyBase58) =
      (case bs58_decode signatureBase58 of
         Inl e \<Rightarrow> [e]
       | Inr sb \<Rightarrow>
           (case bs58_decode pubkeyBase58 of
              Inl e \<Rightarrow> [e]
            | Inr pb \<Rightarrow>
                if length sb \<noteq> 64 then [BadSignatureSize]
                else if length pb \<noteq> 32 then [BadPublicKeySize]
                else []))"
    by (rule verifySignature_console)
qed

lemma decode_RECIPIENT: "bs58_decode RECIPIENT = Inr (replicate 32 0)"
  by (simp add: RECIPIENT_def bs58_decode_def BASE58_ALPHABET_def base58_value_def
      numeral_eq_Suc)

lemma decode_SIGNATURE64: "bs58_decode SIGNATURE64 = Inr (replicate 64 0)"
  by (simp add: SIGNATURE64_def bs58_decode_def BASE58_ALPHABET_def base58_value_def
      numeral_eq_Suc)

lemma decode_short: "bs58_decode ''2'' = Inr [1]"
  by (simp add: bs58_decode_def BASE58_ALPHABET_def base58_value_def)

theorem verifySignature_malformed_witness:
  "fst (verifySignature accept_all ''Link streamer alice'' ''0OIl'' RECIPIENT) = False
   \<and> fst (verifySignature accept_all ''Link streamer alice'' SIGNATURE64 ''not base58!'') = False
   \<and> fst (verifySignature accept_all ''Link streamer alice'' ''2'' RECIPIENT) = False
   \<and> fst (verifySignature accept_all ''Link streamer alice'' SIGNATURE64 SIGNATURE64) = False
   \<and> verifySignature accept_all ''Link streamer alice'' SIGNATURE64 RECIPIENT = (True, [])"
proof -
  have a: "fst (verifySignature accept_all ''Link streamer alice'' ''0OIl'' RECIPIENT) = False"
    using verifySignature_malformed [of "''0OIl''" RECIPIENT accept_all "''Link streamer alice''"]
    by (simp add: BASE58_ALPHABET_def)
  have b: "fst (verifySignature accept_all ''Link streamer alice'' SIGNATURE64 ''not base58!'')
             = False"
    using verifySignature_malformed [of SIGNATURE64 "''not base58!''" accept_all
        "''Link streamer alice''"]
    by (simp add: BASE58_ALPHABET_def)
  have c: "fst (verifySignature accept_all ''Link streamer alice'' ''2'' RECIPIENT) = False"
    using verifySignature_malformed [of "''2''" RECIPIENT accept_all "''Link streamer alice''"]
    by (simp add: decode_short)
  have d: "fst (verifySignature accept_all ''Link streamer alice'' SIGNATURE64 SIGNATURE64)
             = False"
    using verifySignature_malformed [of SIGNATURE64 SIGNATURE64 accept_all
        "''Link streamer alice''"]
    by (simp add: decode_SIGNATURE64)
  have e: "verifySignature accept_all ''Link streamer alice'' SIGNATURE64 RECIPIENT = (True, [])"
    using verifySignature_malformed [of SIGNATURE64 RECIPIENT accept_all
        "''Link streamer alice''"]
    by (simp add: decode_SIGNATURE64 decode_RECIPIENT accept_all_def prod_eq_iff)
  from a b c d e show ?thesis by simp
qed

theorem verifySignature_logs_counterexample:
  "verifySignature accept_all ''Link streamer alice'' ''0OIl'' RECIPIENT
     = (False, [NonBase58Character])"
  by (simp add: verifySignature_def verifySignature_try_def bs58_decode_def
      BASE58_ALPHABET_def)

section \<open>Properties of the event handlers\<close>

lemma on_lookup:
  "on event h m event = Some ((case m event of None \<Rightarrow> [] | Some hs \<Rightarrow> hs) @ [h])"
  by (simp add: on_def Let_def)

lemma register_all_lookup:
  "(case register_all event hs m event of None \<Rightarrow> [] | Some xs \<Rightarrow> xs)
     = (case m event of None \<Rightarrow> [] | Some xs \<Rightarrow> xs) @ hs"
proof (induction hs arbitrary: m)
  case Nil
  then show ?case by (simp add: register_all_def)
next
  case (Cons h hs)
  have "register_all event (h # hs) m = register_all event hs (on event h m)"
    by (simp add: register_all_def)
  with Cons.IH [of "on event h m"] show ?case
    by (simp add: on_lookup)
qed

lemma forEach_handlers_Cons:
  "forEach_handlers (h # hs) d s =
     (fst (forEach_handlers hs d (fst (run h d s))),
      Invoked (handler_id h) d
        # (case snd (run h d s) of None \<Rightarrow> [] | Some e \<Rightarrow> [HandlerErrorLogged e])
        @ snd (forEach_handlers hs d (fst (run h d s))))"
  by (simp split: prod.splits)

lemma invocations_append: "invocations (xs @ ys) = invocations xs @ invocations ys"
  by (induction xs rule: invocations.induct) auto

lemma forEach_handlers_invocations:
  "invocations (snd (forEach_handlers hs d s)) = map (\<lambda>h. (handler_id h, d)) hs"
proof (induction hs arbitrary: s)
  case Nil
  then show ?case by simp
next
  case (Cons h hs)
  have "invocations (case snd (run h d s) of None \<Rightarrow> [] | Some e \<Rightarrow> [HandlerErrorLogged e]) = []"
    by (simp split: option.splits)
  with Cons.IH [of "fst (run h d s)"] show ?case
    by (simp add: forEach_handlers_Cons invocations_append del: forEach_handlers.simps)
qed

lemma forEach_handlers_state:
  "fst (forEach_handlers hs d s) = foldl (\<lambda>acc h. fst (run h d acc)) s hs"
proof (induction hs arbitrary: s)
  case Nil
  then show ?case by simp
next
  case (Cons h hs)
  from Cons.IH [of "fst (run h d s)"] show ?case
    by (simp add: forEach_handlers_Cons del: forEach_handlers.simps)
qed

text \<open>
  C7. After handlers \<open>hs\<close> have been registered for an event with \<open>on\<close>, in that
  order, \<open>emit\<close> calls every handler registered for the event in registration
  order, each with the same data, whether or not any of them throws; every handler
  runs on the state its predecessors left, and \<open>emit\<close> itself returns normally.
\<close>

theorem emit_invokes_all:
  "invocations (snd (emit (register_all event hs eventHandlers) event d s))
     = map (\<lambda>h. (handler_id h, d))
         ((case eventHandlers event of None \<Rightarrow> [] | Some old \<Rightarrow> old) @ hs)
 \<and> fst (emit (register_all event hs eventHandlers) event d s)
     = foldl (\<lambda>acc h. fst (run h d acc)) s
         ((case eventHandlers event of None \<Rightarrow> [] | Some old \<Rightarrow> old) @ hs)"
  by (simp only: emit_def register_all_lookup forEach_handlers_invocations
      forEach_handlers_state)

theorem emit_invokes_all_witness:
  "emit (register_all ''tip'' [counting_handler 1, throwing_handler 2, counting_handler 3]
           Map.empty) ''tip'' example_tip 0
     = (12, [Invoked 1 example_tip, Invoked 2 example_tip, HandlerErrorLogged TypeError,
             Invoked 3 example_tip])
   \<and> invocations (snd (emit (register_all ''tip''
           [counting_handler 1, throwing_handler 2, counting_handler 3] Map.empty)
           ''tip'' example_tip 0))
     = [(1, example_tip), (2, example_tip), (3, example_tip)]"
proof -
  have "emit (register_all ''tip'' [counting_handler 1, throwing_handler 2, counting_handler 3]
           Map.empty) ''tip'' example_tip (0::nat)
     = (12, [Invoked 1 example_tip, Invoked 2 example_tip, HandlerErrorLogged TypeError,
             Invoked 3 example_tip])"
    by (simp add: emit_def register_all_def on_def counting_handler_def throwing_handler_def)
  moreover have "invocations (snd (emit (register_all ''tip''
           [counting_handler 1, throwing_handler 2, counting_handler 3] Map.empty)
           ''tip'' example_tip (0::nat)))
     = [(1, example_tip), (2, example_tip), (3, example_tip)]"
    using emit_invokes_all [of "''tip''"
        "[counting_handler 1, throwing_handler 2, counting_handler 3]" Map.empty example_tip 0]
    by (simp add: counting_handler_def throwing_handler_def)
  ultimately show ?thesis by simp
qed

section \<open>Properties of memo extraction\<close>

lemma memo_loop_skip:
  "programIdIndex ix < length keys \<Longrightarrow> \<not> is_memo_instruction keys ix \<Longrightarrow>
   memo_loop keys (ix # rest) = memo_loop keys rest"
  by (auto simp: is_memo_instruction_def js_nth_def)

lemma memo_loop_fail:
  "is_memo_instruction keys ix \<Longrightarrow> bs58_decode (data ix) = Inl e \<Longrightarrow>
   memo_loop keys (ix # rest) = (fst (memo_loop keys rest), e # snd (memo_loop keys rest))"
  by (auto simp: is_memo_instruction_def split: prod.splits)

lemma memo_loop_hit:
  "is_memo_instruction keys ix \<Longrightarrow> bs58_decode (data ix) = Inr bs \<Longrightarrow>
   memo_loop keys (ix # rest) = (Inr (Some (utf8_toString bs)), [])"
  by (auto simp: is_memo_instruction_def)

lemma memo_loop_throw:
  "length keys \<le> programIdIndex ix \<Longrightarrow> memo_loop keys (ix # rest) = (Inl TypeError, [])"
  by (simp add: js_nth_def)

lemma bs58_decode_error: "bs58_decode s = Inl e \<Longrightarrow> e = NonBase58Character"
  by (simp add: bs58_decode_def split: if_splits)

lemma memo_loop_prefix:
  "\<forall>j\<in>set before. programIdIndex j < length keys
      \<and> (is_memo_instruction keys j \<longrightarrow> (\<exists>e. bs58_decode (data j) = Inl e)) \<Longrightarrow>
   memo_loop keys (before @ rest) =
     (fst (memo_loop keys rest),
      replicate (length (filter (is_memo_instruction keys) before)) NonBase58Character
        @ snd (memo_loop keys rest))"
proof (induction before)
  case Nil
  then show ?case by simp
next
  case (Cons j before)
  then have ih: "memo_loop keys (before @ rest) =
     (fst (memo_loop keys rest),
      replicate (length (filter (is_memo_instruction keys) before)) NonBase58Character
        @ snd (memo_loop keys rest))"
    by simp
  show ?case
  proof (cases "is_memo_instruction keys j")
    case True
    with Cons.prems obtain e where e: "bs58_decode (data j) = Inl e" by auto
    then have "e = NonBase58Character" by (rule bs58_decode_error)
    with memo_loop_fail [OF True e, of "before @ rest"] ih True show ?thesis
      by simp
  next
    case False
    from Cons.prems have "programIdIndex j < length keys" by simp
    from memo_loop_skip [OF this False, of "before @ rest"] ih False show ?thesis
      by simp
  qed
qed

lemma processTransaction_tip:
  assumes "getTransaction r signature = Inr (Some t)"
    and "parseTipTransaction (Some t) pubkey = Inr (Some tipInfo)"
  shows "processTransaction r sid pubkey signature =
     map MemoErrorLogged (snd (extractMemo (Some t)))
     @ (case fst (extractMemo (Some t)) of
          Inl e \<Rightarrow> [TxErrorLogged signature]
        | Inr m \<Rightarrow>
            [TipDetectedLogged sid,
             Emit \<lparr>streamerId = sid, streamerPubkey = pubkey, td_from = from_address tipInfo,
                   td_amountLamports = amountLamports tipInfo, txHash = signature,
                   td_slot = tip_slot tipInfo, td_blockTime = tip_blockTime tipInfo,
                   memo = js_or m None\<rparr>])"
proof -
  from assms(2) have "meta t \<noteq> None"
    by (auto simp: parseTipTransaction_def split: option.splits)
  with assms show ?thesis
    by (auto simp: processTransaction_def)
qed

text \<open>
  C8, as the code has it. Turning the decoded bytes of a memo into text never
  fails (bytes that are not UTF-8 come out as U+FFFD), so the only decoding
  failure is a throw of the base58 decoding. Such a failure is logged and the
  instruction passed over: as long as every instruction read names an account of
  the list, \<open>extractMemo\<close> returns the text of the first memo instruction that
  decodes, and null when none does, after one console line for each memo
  instruction that failed before. An instruction read whose program index lies
  outside the account list makes \<open>extractMemo\<close> throw. When the parser yields a
  tip, \<open>processTransaction\<close> writes those console lines and then emits the
  event, with the memo found or with none, unless \<open>extractMemo\<close> threw, in which
  case it logs the error and emits nothing.
\<close>

theorem memo_decode_failure:
  assumes "transaction t = Some msg"
  shows "(instructions msg = before @ ix # rest
            \<and> (\<forall>j\<in>set before. programIdIndex j < length (accountKeys msg)
                  \<and> (is_memo_instruction (accountKeys msg) j \<longrightarrow>
                        (\<exists>e. bs58_decode (data j) = Inl e)))
            \<and> is_memo_instruction (accountKeys msg) ix
            \<and> bs58_decode (data ix) = Inr bs \<longrightarrow>
            extractMemo (Some t) =
              (Inr (Some (utf8_toString bs)),
               replicate (length (filter (is_memo_instruction (accountKeys msg)) before))
                 NonBase58Character))
       \<and> ((\<forall>j\<in>set (instructions msg). programIdIndex j < length (accountKeys msg)
                  \<and> (is_memo_instruction (accountKeys msg) j \<longrightarrow>
                        (\<exists>e. bs58_decode (data j) = Inl e))) \<longrightarrow>
            extractMemo (Some t) =
              (Inr None,
               replicate (length (filter (is_memo_instruction (accountKeys msg))
                                    (instructions msg)))
                 NonBase58Character))
       \<and> (instructions msg = before @ ix # rest
            \<and> (\<forall>j\<in>set before. programIdIndex j < length (accountKeys msg)
                  \<and> (is_memo_instruction (accountKeys msg) j \<longrightarrow>
                        (\<exists>e. bs58_decode (data j) = Inl e)))
            \<and> length (accountKeys msg) \<le> programIdIndex ix \<longrightarrow>
            extractMemo (Some t) =
              (Inl TypeError,
               replicate (length (filter (is_memo_instruction (accountKeys msg)) before))
                 NonBase58Character))
       \<and> (getTransaction r signature = Inr (Some t)
            \<and> parseTipTransaction (Some t) pubkey = Inr (Some tipInfo) \<longrightarrow>
            processTransaction r sid pubkey signature =
              map MemoErrorLogged (snd (extractMemo (Some t)))
              @ (case fst (extractMemo (Some t)) of
                   Inl e \<Rightarrow> [TxErrorLogged signature]
                 | Inr m \<Rightarrow>
                     [TipDetectedLogged sid,
                      Emit \<lparr>streamerId = sid, streamerPubkey = pubkey,
                            td_from = from_address tipInfo,
                            td_amountLamports = amountLamports tipInfo, txHash = signature,
                            td_slot = tip_slot tipInfo, td_blockTime = tip_blockTime tipInfo,
                            memo = js_or m None\<rparr>]))"
proof (intro conjI impI)
  have em: "extractMemo (Some t) = memo_loop (accountKeys msg) (instructions msg)"
    using assms(1) by (simp add: extractMemo_def)
  {
    assume h: "instructions msg = before @ ix # rest
            \<and> (\<forall>j\<in>set before. programIdIndex j < length (accountKeys msg)
                  \<and> (is_memo_instruction (accountKeys msg) j \<longrightarrow>
                        (\<exists>e. bs58_decode (data j) = Inl e)))
            \<and> is_memo_instruction (accountKeys msg) ix
            \<and> bs58_decode (data ix) = Inr bs"
    then have p: "\<forall>j\<in>set before. programIdIndex j < length (accountKeys msg)
                  \<and> (is_memo_instruction (accountKeys msg) j \<longrightarrow>
                        (\<exists>e. bs58_decode (data j) = Inl e))"
      by blast
    from h have "memo_loop (accountKeys msg) (ix # rest) = (Inr (Some (utf8_toString bs)), [])"
      by (intro memo_loop_hit) simp_all
    with memo_loop_prefix [OF p, of "ix # rest"] h em
    show "extractMemo (Some t) =
              (Inr (Some (utf8_toString bs)),
               replicate (length (filter (is_memo_instruction (accountKeys msg)) before))
                 NonBase58Character)"
      by simp
  }
  {
    assume h: "\<forall>j\<in>set (instructions msg). programIdIndex j < length (accountKeys msg)
                  \<and> (is_memo_instruction (accountKeys msg) j \<longrightarrow>
                        (\<exists>e. bs58_decode (data j) = Inl e))"
    from memo_loop_prefix [OF h, of "[]"] em
    show "extractMemo (Some t) =
              (Inr None,
               replicate (length (filter (is_memo_instruction (accountKeys msg))
                                    (instructions msg)))
                 NonBase58Character)"
      by simp
  }
  {
    assume h: "instructions msg = before @ ix # rest
            \<and> (\<forall>j\<in>set before. programIdIndex j < length (accountKeys msg)
                  \<and> (is_memo_instruction (accountKeys msg) j \<longrightarrow>
                        (\<exists>e. bs58_decode (data j) = Inl e)))
            \<and> length (accountKeys msg) \<le> programIdIndex ix"
    then have p: "\<forall>j\<in>set before. programIdIndex j < length (accountKeys msg)
                  \<and> (is_memo_instruction (accountKeys msg) j \<longrightarrow>
                        (\<exists>e. bs58_decode (data j) = Inl e))"
      by blast
    from h have "memo_loop (accountKeys msg) (ix # rest) = (Inl TypeError, [])"
      by (intro memo_loop_throw) simp
    with memo_loop_prefix [OF p, of "ix # rest"] h em
    show "extractMemo (Some t) =
              (Inl TypeError,
               replicate (length (filter (is_memo_instruction (accountKeys msg)) before))
                 NonBase58Character)"
      by simp
  }
  {
    assume "getTransaction r signature = Inr (Some t)
            \<and> parseTipTransaction (Some t) pubkey = Inr (Some tipInfo)"
    then show "processTransaction r sid pubkey signature =
              map MemoErrorLogged (snd (extractMemo (Some t)))
              @ (case fst (extractMemo (Some t)) of
                   Inl e \<Rightarrow> [TxErrorLogged signature]
                 | Inr m \<Rightarrow>
                     [TipDetectedLogged sid,
                      Emit \<lparr>streamerId = sid, streamerPubkey = pubkey,
                            td_from = from_address tipInfo,
                            td_amountLamports = amountLamports tipInfo, txHash = signature,
                            td_slot = tip_slot tipInfo, td_blockTime = tip_blockTime tipInfo,
                            memo = js_or m None\<rparr>])"
      by (intro processTransaction_tip) simp_all
  }
qed

lemma char_of_g: "char_of (103::nat) = CHR ''g''"
  by code_simp

lemma decode_gg: "bs58_decode ''8sQ'' = Inr [103, 103]"
  by (simp add: bs58_decode_def BASE58_ALPHABET_def base58_value_def)

lemma decode_zero: "bs58_decode ''0'' = Inl NonBase58Character"
  by (simp add: bs58_decode_def BASE58_ALPHABET_def)

lemma decode_illformed: "bs58_decode ''LSJ'' = Inr [255, 103]"
  by (simp add: bs58_decode_def BASE58_ALPHABET_def base58_value_def)

lemma utf8_gg: "utf8_toString [103, 103] = ''gg''"
  by (simp add: utf8_toString_def char_of_g)

lemma utf8_illformed: "utf8_toString [255, 103] = map char_of [239, 191, 189, 103 :: nat]"
  by (simp add: utf8_toString_def REPLACEMENT_def)

lemma parse_bad_memo_tx:
  "parseTipTransaction (Some bad_memo_tx) RECIPIENT =
     Inr (Some \<lparr>from_address = ''Sender'', amountLamports = Some 1000000,
                 tip_slot = 9, tip_blockTime = Some 1700000002\<rparr>)"
  by (simp add: parseTipTransaction_def bad_memo_tx_def RECIPIENT_def MEMO_PROGRAM_ID_def
      js_nth_def js_minus_def js_le_zero_def balance_decreased_def js_gt_def
      round_double_le_zero round_double_exact)

lemma parse_double_memo_tx:
  "parseTipTransaction (Some double_memo_tx) RECIPIENT =
     Inr (Some \<lparr>from_address = ''Sender'', amountLamports = Some 1000000,
                 tip_slot = 8, tip_blockTime = Some 1700000001\<rparr>)"
  by (simp add: parseTipTransaction_def double_memo_tx_def RECIPIENT_def MEMO_PROGRAM_ID_def
      js_nth_def js_minus_def js_le_zero_def balance_decreased_def js_gt_def
      round_double_le_zero round_double_exact)

theorem memo_decode_failure_witness:
  "extractMemo (Some bad_memo_tx) = (Inr None, [NonBase58Character])
   \<and> processTransaction memo_rpc ''alice'' RECIPIENT ''m1'' =
       [MemoErrorLogged NonBase58Character,
        TipDetectedLogged ''alice'',
        Emit \<lparr>streamerId = ''alice'', streamerPubkey = RECIPIENT, td_from = ''Sender'',
              td_amountLamports = Some 1000000, txHash = ''m1'', td_slot = 9,
              td_blockTime = Some 1700000002, memo = None\<rparr>]
   \<and> extractMemo (Some double_memo_tx) = (Inr (Some ''gg''), [NonBase58Character])"
proof -
  have t: "transaction bad_memo_tx =
      Some \<lparr>accountKeys = [''Sender'', RECIPIENT, MEMO_PROGRAM_ID],
            instructions = [\<lparr>programIdIndex = 2, data = ''0''\<rparr>]\<rparr>"
    by (simp add: bad_memo_tx_def)
  have g: "getTransaction memo_rpc ''m1'' = Inr (Some bad_memo_tx)"
    by (simp add: memo_rpc_def)
  note mdf = memo_decode_failure [OF t, of "[]" "\<lparr>programIdIndex = 2, data = ''0''\<rparr>" "[]"
      "[]" memo_rpc "''m1''" RECIPIENT
      "\<lparr>from_address = ''Sender'', amountLamports = Some 1000000,
        tip_slot = 9, tip_blockTime = Some 1700000002\<rparr>" "''alice''"]
  from mdf have n: "extractMemo (Some bad_memo_tx) = (Inr None, [NonBase58Character])"
    by (simp add: decode_zero is_memo_instruction_def js_nth_def)
  from mdf g parse_bad_memo_tx n
  have p: "processTransaction memo_rpc ''alice'' RECIPIENT ''m1'' =
       [MemoErrorLogged NonBase58Character,
        TipDetectedLogged ''alice'',
        Emit \<lparr>streamerId = ''alice'', streamerPubkey = RECIPIENT, td_from = ''Sender'',
              td_amountLamports = Some 1000000, txHash = ''m1'', td_slot = 9,
              td_blockTime = Some 1700000002, memo = None\<rparr>]"
    by (simp add: js_or_def js_truthy_def)
  have t2: "transaction double_memo_tx =
      Some \<lparr>accountKeys = [''Sender'', RECIPIENT, MEMO_PROGRAM_ID],
            instructions = [\<lparr>programIdIndex = 2, data = ''0''\<rparr>,
                            \<lparr>programIdIndex = 2, data = ''8sQ''\<rparr>]\<rparr>"
    by (simp add: double_memo_tx_def)
  from memo_decode_failure [OF t2, of "[\<lparr>programIdIndex = 2, data = ''0''\<rparr>]"
      "\<lparr>programIdIndex = 2, data = ''8sQ''\<rparr>" "[]" "[103, 103]"]
  have d: "extractMemo (Some double_memo_tx) = (Inr (Some ''gg''), [NonBase58Character])"
    by (simp add: decode_zero decode_gg utf8_gg is_memo_instruction_def js_nth_def)
  from n p d show ?thesis by simp
qed

theorem memo_absent_counterexample:
  "bs58_decode ''LSJ'' = Inr [255, 103]
   \<and> extractMemo (Some illformed_memo_tx)
       = (Inr (Some (map char_of [239, 191, 189, 103 :: nat])), [])
   \<and> is_memo_instruction [''Sender'', RECIPIENT, MEMO_PROGRAM_ID]
         \<lparr>programIdIndex = 2, data = ''0''\<rparr>
   \<and> bs58_decode ''0'' = Inl NonBase58Character
   \<and> extractMemo (Some double_memo_tx) = (Inr (Some ''gg''), [NonBase58Character])
   \<and> processTransaction memo_rpc ''alice'' RECIPIENT ''m2'' =
       [MemoErrorLogged NonBase58Character,
        TipDetectedLogged ''alice'',
        Emit \<lparr>streamerId = ''alice'', streamerPubkey = RECIPIENT, td_from = ''Sender'',
              td_amountLamports = Some 1000000, txHash = ''m2'', td_slot = 8,
              td_blockTime = Some 1700000001, memo = Some ''gg''\<rparr>]"
proof -
  have i: "extractMemo (Some illformed_memo_tx)
       = (Inr (Some (map char_of [239, 191, 189, 103 :: nat])), [])"
    by (simp add: extractMemo_def illformed_memo_tx_def js_nth_def decode_illformed
        utf8_illformed)
  have m: "extractMemo (Some double_memo_tx) = (Inr (Some ''gg''), [NonBase58Character])"
    by (simp add: extractMemo_def double_memo_tx_def js_nth_def decode_zero decode_gg utf8_gg)
  have g: "getTransaction memo_rpc ''m2'' = Inr (Some double_memo_tx)"
    by (simp add: memo_rpc_def)
  have "processTransaction memo_rpc ''alice'' RECIPIENT ''m2'' =
       [MemoErrorLogged NonBase58Character,
        TipDetectedLogged ''alice'',
        Emit \<lparr>streamerId = ''alice'', streamerPubkey = RECIPIENT, td_from = ''Sender'',
              td_amountLamports = Some 1000000, txHash = ''m2'', td_slot = 8,
              td_blockTime = Some 1700000001, memo = Some ''gg''\<rparr>]"
    by (simp add: processTransaction_tip [OF g parse_double_memo_tx] m js_or_def js_truthy_def)
  with i m show ?thesis
    by (simp add: is_memo_instruction_def js_nth_def decode_zero decode_illformed)
qed

end
